theory Spec2Isabelle
  imports Main
begin

section \<open>DataVault: staging, mirroring and scheduling of backups\<close>

text \<open>
  The development embeds the Go sources \<^verbatim>\<open>backup.go\<close>, \<^verbatim>\<open>gdrive.go\<close> (which
  also holds the pCloud adapter), \<^verbatim>\<open>config.go\<close> and \<^verbatim>\<open>main.go\<close>.
  Everything outside the process (the local filesystem, the two storage
  providers, the clock, the ticker and the cancellation signal) is an explicit
  state that the functions take and return; every call that can fail in the
  source asks an oracle of that state whether it does.
\<close>

subsection \<open>Errors\<close>

datatype errno = ENOENT | ENOTDIR | EISDIR | EIO

text \<open>
  Go \<^verbatim>\<open>error\<close> values. \<open>Msg s\<close> is \<^verbatim>\<open>fmt.Errorf(s)\<close>, \<open>Wrapped s e\<close> is
  \<^verbatim>\<open>fmt.Errorf(s + ": %w", e)\<close>, \<open>Canceled\<close> is \<^verbatim>\<open>context.Canceled\<close> (the value
  of \<^verbatim>\<open>ctx.Err()\<close> once the context is done), \<open>Transport\<close> is an error of the
  HTTP client or of the Drive SDK, \<open>Syntax\<close> an error of \<^verbatim>\<open>json.Unmarshal\<close>,
  \<open>SysErr\<close> an error of package \<^verbatim>\<open>os\<close>, and \<open>Panic\<close> a run-time panic.
\<close>

datatype error =
    Canceled
  | Transport
  | Syntax
  | SysErr errno
  | Msg string
  | Wrapped string error
  | Panic string

subsection \<open>Local directory trees\<close>

type_synonym bytes = string
type_synonym mode = nat
type_synonym path = "string list"

text \<open>
  A regular file with its bytes and permission bits, or a directory with its
  permission bits and its entries. The entry list stands in the order in which
  \<^verbatim>\<open>filepath.Walk\<close> and \<^verbatim>\<open>os.ReadDir\<close> present it (both sort by name).
  Symbolic links and special files are outside the model.
\<close>

datatype node = File bytes mode | Dir mode "(string \<times> node) list"

fun IsDir :: "node \<Rightarrow> bool" where
  "IsDir (Dir m es) = True"
| "IsDir (File b m) = False"

subsection \<open>A storage provider as seen by one upload task\<close>

type_synonym ident = nat

text \<open>
  A remote object: a folder (\<open>body = None\<close>) or a file with its bytes. Native
  identifiers (opaque strings for Google Drive, 64-bit integers for pCloud) are
  numbered by naturals; \<open>0\<close> is the provider's global root folder (pCloud's
  \<^verbatim>\<open>folderid=0\<close>, the root of My Drive).
\<close>

record robj =
  oid :: ident
  parent :: ident
  oname :: string
  body :: "bytes option"
  trashed :: bool

text \<open>
  How the outside world answers one call: \<open>Served\<close> performs it; \<open>Refused\<close>
  is a transport failure (the call returns an error); \<open>Garbled\<close> is an HTTP 200
  whose body is not JSON; \<open>Rejected msg\<close> is a well-formed answer with a
  non-zero result code (the model uses \<open>1\<close>) and error text \<open>msg\<close>.
  Only a served call changes the stored objects.
\<close>

datatype reply = Served | Refused | Garbled | Rejected string

text \<open>
  The environment of one adapter: the provider's objects in creation order, the
  next identifier the provider hands out, the oracle \<open>replies\<close> answering the
  task's fallible calls (remote requests and local reads alike) by their
  running number, and \<open>clock\<close>, the number of such calls made so far.
\<close>

record remote =
  objs :: "robj list"
  next_id :: ident
  replies :: "nat \<Rightarrow> reply"
  clock :: nat

definition answer :: "remote \<Rightarrow> reply" where
  "answer r = replies r (clock r)"

definition tick :: "remote \<Rightarrow> remote" where
  "tick r = r\<lparr>clock := Suc (clock r)\<rparr>"

definition store :: "ident \<Rightarrow> string \<Rightarrow> bytes option \<Rightarrow> remote \<Rightarrow> remote" where
  "store par nm media r =
     r\<lparr>objs := objs r @ [\<lparr>oid = next_id r, parent = par, oname = nm, body = media, trashed = False\<rparr>],
       next_id := Suc (next_id r),
       clock := Suc (clock r)\<rparr>"

text \<open>
  A \<^verbatim>\<open>context.Context\<close> as one task observes it: \<open>Some d\<close> is a context whose
  cancellation is visible to the task from its \<open>d\<close>-th call on (\<open>Some 0\<close>:
  cancelled from the start), \<open>None\<close> a context that is never cancelled
  (\<^verbatim>\<open>context.Background()\<close>, or a request that carries no context). Once
  done, a context stays done. A request that carries a context which is done
  fails in the client with the context's error: nothing is sent, the provider
  is not asked, and the call does not count.
\<close>

type_synonym ctx = "nat option"

definition ctx_done :: "ctx \<Rightarrow> remote \<Rightarrow> bool" where
  "ctx_done ctx r = (case ctx of None \<Rightarrow> False | Some d \<Rightarrow> d \<le> clock r)"

text \<open>
  \<^verbatim>\<open>os.Open\<close> on an entry of the staged tree, followed by reading it to the end.
\<close>

definition Open :: "node \<Rightarrow> remote \<Rightarrow> (error + bytes) \<times> remote" where
  "Open local r =
     (case answer r of
        Served \<Rightarrow> (case local of File b m \<Rightarrow> (Inr b, tick r) | Dir m es \<Rightarrow> (Inl (SysErr EISDIR), tick r))
      | _ \<Rightarrow> (Inl (SysErr EIO), tick r))"

subsection \<open>The Google Drive adapter (\<^verbatim>\<open>gdrive.go\<close>)\<close>

text \<open>
  \<open>service\<close> tells whether the \<^verbatim>\<open>*drive.Service\<close> handle is non-nil; the
  provider it talks to is the \<open>remote\<close> passed along.
\<close>

record GoogleDriveClient =
  service :: bool
  authFile :: string
  g_rootFolderID :: ident

text \<open>\<^verbatim>\<open>service.Files.List().Q(query).Do()\<close> with the query of \<^verbatim>\<open>ensureRootFolder\<close>.\<close>

definition Files_List_DataVault :: "remote \<Rightarrow> (error + robj list) \<times> remote" where
  "Files_List_DataVault r =
     (case answer r of
        Served \<Rightarrow> (Inr (filter (\<lambda>f. oname f = ''DataVault'' \<and> body f = None \<and> \<not> trashed f) (objs r)), tick r)
      | _ \<Rightarrow> (Inl Transport, tick r))"

text \<open>
  \<^verbatim>\<open>service.Files.Create(file).Do()\<close>: a folder when \<open>media = None\<close>
  (\<^verbatim>\<open>MimeType: "application/vnd.google-apps.folder"\<close>), a file with content
  otherwise; without \<^verbatim>\<open>Parents\<close> the object lands in the root.
\<close>

definition Files_Create :: "string \<Rightarrow> ident list \<Rightarrow> bytes option \<Rightarrow> remote \<Rightarrow> (error + ident) \<times> remote" where
  "Files_Create nm parents media r =
     (case answer r of
        Served \<Rightarrow> (Inr (next_id r), store (case parents of [] \<Rightarrow> 0 | p # ps \<Rightarrow> p) nm media r)
      | _ \<Rightarrow> (Inl Transport, tick r))"

text \<open>
  \<^verbatim>\<open>service.Files.Create(file).Media(content).Context(ctx).Do()\<close>, the one
  Drive call of the adapter that carries the caller's context.
\<close>

definition Files_Create_Context :: "ctx \<Rightarrow> string \<Rightarrow> ident list \<Rightarrow> bytes option \<Rightarrow> remote \<Rightarrow> (error + ident) \<times> remote" where
  "Files_Create_Context ctx nm parents media r =
     (if ctx_done ctx r then (Inl Canceled, r) else Files_Create nm parents media r)"

definition g_ensureRootFolder :: "GoogleDriveClient \<Rightarrow> remote \<Rightarrow> error option \<times> GoogleDriveClient \<times> remote" where
  "g_ensureRootFolder gdc r =
     (if \<not> service gdc then (Some (Panic ''nil pointer dereference''), gdc, r)
      else case Files_List_DataVault r of
        (Inl err, r1) \<Rightarrow> (Some (Wrapped ''failed to search for root folder'' err), gdc, r1)
      | (Inr files, r1) \<Rightarrow>
          (case files of
             f # fs \<Rightarrow> (None, gdc\<lparr>g_rootFolderID := oid f\<rparr>, r1)
           | [] \<Rightarrow>
              (case Files_Create ''DataVault'' [] None r1 of
                 (Inl err, r2) \<Rightarrow> (Some (Wrapped ''failed to create root folder'' err), gdc, r2)
               | (Inr fid, r2) \<Rightarrow> (None, gdc\<lparr>g_rootFolderID := fid\<rparr>, r2))))"

definition g_uploadFile :: "ctx \<Rightarrow> node \<Rightarrow> string \<Rightarrow> ident \<Rightarrow> remote \<Rightarrow> error option \<times> remote" where
  "g_uploadFile ctx localFile fileName parentID r =
     (case Open localFile r of
        (Inl err, r1) \<Rightarrow> (Some (Wrapped ''failed to open file'' err), r1)
      | (Inr content, r1) \<Rightarrow>
          (case Files_Create_Context ctx fileName [parentID] (Some content) r1 of
             (Inl err, r2) \<Rightarrow> (Some (Wrapped ''failed to upload file'' err), r2)
           | (Inr fid, r2) \<Rightarrow> (None, r2)))"

text \<open>
  The recursive mirror. The folders are created with
  \<^verbatim>\<open>service.Files.Create(folder).Do()\<close>, which carries no context.
  \<open>g_uploadDirectoryRecursive\<close> takes what lies at
  \<^verbatim>\<open>localPath\<close> (\<open>None\<close>: nothing); its equations are \<^verbatim>\<open>os.ReadDir(localPath)\<close>,
  which fails when there is no directory there and otherwise asks the oracle. \<open>g_entries\<close> is
  the \<^verbatim>\<open>for _, entry := range entries\<close> loop. \<^verbatim>\<open>relativePath\<close> only feeds log
  lines, which the model of the adapters leaves out.
\<close>

fun g_uploadDirectoryRecursive :: "ctx \<Rightarrow> node option \<Rightarrow> ident \<Rightarrow> path \<Rightarrow> remote \<Rightarrow> error option \<times> remote"
  and g_entries :: "ctx \<Rightarrow> (string \<times> node) list \<Rightarrow> ident \<Rightarrow> path \<Rightarrow> remote \<Rightarrow> error option \<times> remote" where
  "g_uploadDirectoryRecursive ctx None parentID relativePath r =
     (Some (Wrapped ''failed to read directory'' (SysErr ENOENT)), tick r)"
| "g_uploadDirectoryRecursive ctx (Some (File b m)) parentID relativePath r =
     (Some (Wrapped ''failed to read directory'' (SysErr ENOTDIR)), tick r)"
| "g_uploadDirectoryRecursive ctx (Some (Dir m es)) parentID relativePath r =
     (case answer r of
        Served \<Rightarrow> g_entries ctx es parentID relativePath (tick r)
      | _ \<Rightarrow> (Some (Wrapped ''failed to read directory'' (SysErr EIO)), tick r))"
| "g_entries ctx [] parentID relativePath r = (None, r)"
| "g_entries ctx ((name, entry) # rest) parentID relativePath r =
     (if ctx_done ctx r then (Some Canceled, r)
      else if IsDir entry then
        (case Files_Create name [parentID] None r of
           (Inl err, r1) \<Rightarrow> g_entries ctx rest parentID relativePath r1
         | (Inr fid, r1) \<Rightarrow>
             (case g_uploadDirectoryRecursive ctx (Some entry) fid (relativePath @ [name]) r1 of
                (err, r2) \<Rightarrow> g_entries ctx rest parentID relativePath r2))
      else
        (case g_uploadFile ctx entry name parentID r of
           (err, r1) \<Rightarrow> g_entries ctx rest parentID relativePath r1))"

definition g_UploadFolder :: "ctx \<Rightarrow> GoogleDriveClient \<Rightarrow> node option \<Rightarrow> string \<Rightarrow> remote \<Rightarrow> error option \<times> remote" where
  "g_UploadFolder ctx gdc localTree backupName r =
     (if \<not> service gdc then (Some (Msg ''Google Drive service not initialized''), r)
      else case Files_Create backupName [g_rootFolderID gdc] None r of
        (Inl err, r1) \<Rightarrow> (Some (Wrapped ''failed to create backup folder'' err), r1)
      | (Inr backupFolderID, r1) \<Rightarrow> g_uploadDirectoryRecursive ctx localTree backupFolderID [] r1)"

text \<open>
  \<^verbatim>\<open>initialize\<close>: reading the credentials file, \<^verbatim>\<open>google.ConfigFromJSON\<close> and
  \<^verbatim>\<open>drive.NewService\<close> are one oracle question each; \<^verbatim>\<open>getClient\<close> reports
  its failures only in the log. \<^verbatim>\<open>NewGoogleDriveClient\<close> returns nil (\<open>None\<close>)
  when \<^verbatim>\<open>initialize\<close> fails.
\<close>

definition g_initialize :: "GoogleDriveClient \<Rightarrow> remote \<Rightarrow> error option \<times> GoogleDriveClient \<times> remote" where
  "g_initialize gdc r =
     (case answer r of
        Served \<Rightarrow>
          (case answer (tick r) of
             Served \<Rightarrow>
               (case answer (tick (tick r)) of
                  Served \<Rightarrow>
                    (case g_ensureRootFolder (gdc\<lparr>service := True\<rparr>) (tick (tick (tick r))) of
                       (Some err, gdc1, r1) \<Rightarrow> (Some (Wrapped ''failed to setup root folder'' err), gdc1, r1)
                     | (None, gdc1, r1) \<Rightarrow> (None, gdc1, r1))
                | _ \<Rightarrow> (Some (Wrapped ''failed to create Drive service'' Transport), gdc, tick (tick (tick r))))
           | _ \<Rightarrow> (Some (Wrapped ''failed to parse credentials'' Syntax), gdc, tick (tick r)))
      | _ \<Rightarrow> (Some (Wrapped ''failed to read credentials file'' (SysErr EIO)), gdc, tick r))"

definition NewGoogleDriveClient :: "string \<Rightarrow> remote \<Rightarrow> GoogleDriveClient option \<times> remote" where
  "NewGoogleDriveClient auth r =
     (case g_initialize \<lparr>service = False, authFile = auth, g_rootFolderID = 0\<rparr> r of
        (Some err, client, r1) \<Rightarrow> (None, r1)
      | (None, client, r1) \<Rightarrow> (Some client, r1))"

subsection \<open>The pCloud adapter (second part of \<^verbatim>\<open>gdrive.go\<close>)\<close>

record PCloudClient =
  authToken :: string
  baseURL :: string
  p_rootFolderID :: ident

datatype endpoint = listfolder ident | createfolder ident string

text \<open>
  A response body: not JSON at all, or the union of the fields that
  \<^verbatim>\<open>PCloudListFolder\<close> and \<^verbatim>\<open>PCloudFolder\<close> decode (\<^verbatim>\<open>result\<close>, \<^verbatim>\<open>error\<close>,
  \<^verbatim>\<open>metadata.contents\<close>, \<^verbatim>\<open>metadata.folderid\<close>).
\<close>

datatype response = Garbage | Json (result: nat) (errtext: string) (contents: "robj list") (folderid: ident)

text \<open>
  \<^verbatim>\<open>makeRequest\<close>. The request is built with \<^verbatim>\<open>http.NewRequestWithContext\<close>, so
  that \<^verbatim>\<open>client.Do\<close> fails with the context's error when the context is done.
  Its three transport-level failures (the request fails, the body cannot be
  read, the status is not 200) are the one reply \<open>Refused\<close>.
\<close>

definition makeRequest :: "ctx \<Rightarrow> endpoint \<Rightarrow> remote \<Rightarrow> (error + response) \<times> remote" where
  "makeRequest ctx ep r =
     (if ctx_done ctx r then (Inl (Wrapped ''request failed'' Canceled), r)
      else case answer r of
        Refused \<Rightarrow> (Inl (Wrapped ''request failed'' Transport), tick r)
      | Garbled \<Rightarrow> (Inr Garbage, tick r)
      | Rejected msg \<Rightarrow> (Inr (Json 1 msg [] 0), tick r)
      | Served \<Rightarrow>
          (case ep of
             listfolder fid \<Rightarrow> (Inr (Json 0 [] (filter (\<lambda>f. parent f = fid) (objs r)) fid), tick r)
           | createfolder fid nm \<Rightarrow> (Inr (Json 0 [] [] (next_id r)), store fid nm None r)))"

text \<open>\<^verbatim>\<open>json.Unmarshal(body, &resp)\<close>.\<close>

fun Unmarshal :: "response \<Rightarrow> error + response" where
  "Unmarshal Garbage = Inl Syntax"
| "Unmarshal (Json res msg cs fid) = Inr (Json res msg cs fid)"

definition p_ensureRootFolder :: "PCloudClient \<Rightarrow> remote \<Rightarrow> error option \<times> PCloudClient \<times> remote" where
  "p_ensureRootFolder pc r =
     (case makeRequest None (listfolder 0) r of
        (Inl err, r1) \<Rightarrow> (Some (Wrapped ''failed to list root folder'' err), pc, r1)
      | (Inr body1, r1) \<Rightarrow>
          (case Unmarshal body1 of
             Inl err \<Rightarrow> (Some (Wrapped ''failed to parse list response'' err), pc, r1)
           | Inr listResp \<Rightarrow>
               if result listResp \<noteq> 0 then (Some (Msg (''pCloud API error: '' @ errtext listResp)), pc, r1)
               else
                 (case find (\<lambda>item. body item = None \<and> oname item = ''DataVault'') (contents listResp) of
                    Some item \<Rightarrow> (None, pc\<lparr>p_rootFolderID := oid item\<rparr>, r1)
                  | None \<Rightarrow>
                      (case makeRequest None (createfolder 0 ''DataVault'') r1 of
                         (Inl err, r2) \<Rightarrow> (Some (Wrapped ''failed to create DataVault folder'' err), pc, r2)
                       | (Inr body2, r2) \<Rightarrow>
                           (case Unmarshal body2 of
                              Inl err \<Rightarrow> (Some (Wrapped ''failed to parse folder response'' err), pc, r2)
                            | Inr folderResp \<Rightarrow>
                                if result folderResp \<noteq> 0
                                then (Some (Msg (''pCloud API error: '' @ errtext folderResp)), pc, r2)
                                else (None, pc\<lparr>p_rootFolderID := folderid folderResp\<rparr>, r2))))))"

text \<open>
  \<^verbatim>\<open>uploadFile\<close>: the file is opened and copied whole into the multipart
  buffer, then posted to \<^verbatim>\<open>/uploadfile\<close> with a request that carries the
  context.
\<close>

definition p_uploadFile :: "ctx \<Rightarrow> node \<Rightarrow> string \<Rightarrow> ident \<Rightarrow> remote \<Rightarrow> error option \<times> remote" where
  "p_uploadFile ctx localFile fileName parentFolderID r =
     (case Open localFile r of
        (Inl err, r1) \<Rightarrow> (Some (Wrapped ''failed to open file'' err), r1)
      | (Inr content, r1) \<Rightarrow>
          if ctx_done ctx r1 then (Some (Wrapped ''upload request failed'' Canceled), r1)
          else
          (case answer r1 of
             Refused \<Rightarrow> (Some (Wrapped ''upload request failed'' Transport), tick r1)
           | Garbled \<Rightarrow> (Some (Wrapped ''failed to parse upload response'' Syntax), tick r1)
           | Rejected msg \<Rightarrow> (Some (Msg (''pCloud upload error: '' @ msg)), tick r1)
           | Served \<Rightarrow> (None, store parentFolderID fileName (Some content) r1)))"

fun p_uploadDirectoryRecursive :: "ctx \<Rightarrow> node option \<Rightarrow> ident \<Rightarrow> path \<Rightarrow> remote \<Rightarrow> error option \<times> remote"
  and p_entries :: "ctx \<Rightarrow> (string \<times> node) list \<Rightarrow> ident \<Rightarrow> path \<Rightarrow> remote \<Rightarrow> error option \<times> remote" where
  "p_uploadDirectoryRecursive ctx None parentFolderID relativePath r =
     (Some (Wrapped ''failed to read directory'' (SysErr ENOENT)), tick r)"
| "p_uploadDirectoryRecursive ctx (Some (File b m)) parentFolderID relativePath r =
     (Some (Wrapped ''failed to read directory'' (SysErr ENOTDIR)), tick r)"
| "p_uploadDirectoryRecursive ctx (Some (Dir m es)) parentFolderID relativePath r =
     (case answer r of
        Served \<Rightarrow> p_entries ctx es parentFolderID relativePath (tick r)
      | _ \<Rightarrow> (Some (Wrapped ''failed to read directory'' (SysErr EIO)), tick r))"
| "p_entries ctx [] parentFolderID relativePath r = (None, r)"
| "p_entries ctx ((name, entry) # rest) parentFolderID relativePath r =
     (if ctx_done ctx r then (Some Canceled, r)
      else if IsDir entry then
        (case makeRequest ctx (createfolder parentFolderID name) r of
           (Inl err, r1) \<Rightarrow> p_entries ctx rest parentFolderID relativePath r1
         | (Inr body1, r1) \<Rightarrow>
             (case Unmarshal body1 of
                Inl err \<Rightarrow> p_entries ctx rest parentFolderID relativePath r1
              | Inr folderResp \<Rightarrow>
                  if result folderResp \<noteq> 0 then p_entries ctx rest parentFolderID relativePath r1
                  else
                    (case p_uploadDirectoryRecursive ctx (Some entry) (folderid folderResp) (relativePath @ [name]) r1 of
                       (err, r2) \<Rightarrow> p_entries ctx rest parentFolderID relativePath r2)))
      else
        (case p_uploadFile ctx entry name parentFolderID r of
           (err, r1) \<Rightarrow> p_entries ctx rest parentFolderID relativePath r1))"

definition p_UploadFolder :: "ctx \<Rightarrow> PCloudClient \<Rightarrow> node option \<Rightarrow> string \<Rightarrow> remote \<Rightarrow> error option \<times> remote" where
  "p_UploadFolder ctx pc localTree backupName r =
     (case makeRequest ctx (createfolder (p_rootFolderID pc) backupName) r of
        (Inl err, r1) \<Rightarrow> (Some (Wrapped ''failed to create backup folder'' err), r1)
      | (Inr body1, r1) \<Rightarrow>
          (case Unmarshal body1 of
             Inl err \<Rightarrow> (Some (Wrapped ''failed to parse folder response'' err), r1)
           | Inr folderResp \<Rightarrow>
               if result folderResp \<noteq> 0 then (Some (Msg (''pCloud API error: '' @ errtext folderResp)), r1)
               else p_uploadDirectoryRecursive ctx localTree (folderid folderResp) [] r1))"

definition p_initialize :: "PCloudClient \<Rightarrow> remote \<Rightarrow> error option \<times> PCloudClient \<times> remote" where
  "p_initialize pc r =
     (case p_ensureRootFolder pc r of
        (Some err, pc1, r1) \<Rightarrow> (Some (Wrapped ''failed to setup root folder'' err), pc1, r1)
      | (None, pc1, r1) \<Rightarrow> (None, pc1, r1))"

definition NewPCloudClient :: "string \<Rightarrow> remote \<Rightarrow> PCloudClient option \<times> remote" where
  "NewPCloudClient token r =
     (case p_initialize \<lparr>authToken = token, baseURL = ''https://api.pcloud.com'', p_rootFolderID = 0\<rparr> r of
        (Some err, client, r1) \<Rightarrow> (None, r1)
      | (None, client, r1) \<Rightarrow> (Some client, r1))"

subsection \<open>The local filesystem\<close>

text \<open>
  \<open>get d p\<close> is what lies at path \<open>p\<close> below the directory tree \<open>d\<close>; \<open>put p x d\<close>
  replaces it by \<open>x\<close>, or adds \<open>x\<close> as the last entry of an existing parent
  directory; \<open>del p d\<close> removes it with everything below.
\<close>

fun upd :: "string \<Rightarrow> node \<Rightarrow> (string \<times> node) list \<Rightarrow> (string \<times> node) list" where
  "upd c y [] = []"
| "upd c y ((k, v) # es) = (if k = c then (k, y) # es else (k, v) # upd c y es)"

fun get :: "node \<Rightarrow> path \<Rightarrow> node option" where
  "get n [] = Some n"
| "get (File b m) (c # cs) = None"
| "get (Dir m es) (c # cs) = (case map_of es c of None \<Rightarrow> None | Some x \<Rightarrow> get x cs)"

fun put :: "path \<Rightarrow> node \<Rightarrow> node \<Rightarrow> node" where
  "put [] x n = x"
| "put (c # cs) x (File b m) = File b m"
| "put (c # cs) x (Dir m es) =
     (case map_of es c of
        Some y \<Rightarrow> Dir m (upd c (put cs x y) es)
      | None \<Rightarrow> if cs = [] then Dir m (es @ [(c, x)]) else Dir m es)"

fun del :: "path \<Rightarrow> node \<Rightarrow> node" where
  "del [] n = n"
| "del (c # cs) (File b m) = File b m"
| "del (c # cs) (Dir m es) =
     (if cs = [] then Dir m (filter (\<lambda>e. fst e \<noteq> c) es)
      else case map_of es c of Some y \<Rightarrow> Dir m (upd c (del cs y) es) | None \<Rightarrow> Dir m es)"

text \<open>The permission bits that a creating call stores under the process's umask.\<close>

definition masked :: "mode \<Rightarrow> mode \<Rightarrow> mode" where
  "masked u m = m - and m u"

text \<open>
  \<^verbatim>\<open>os.MkdirAll\<close> on a tree: nothing to do where a directory exists, an error
  where a file is in the way, and every missing directory of the path created
  with the given bits.
\<close>

fun mkdirAll :: "mode \<Rightarrow> path \<Rightarrow> node \<Rightarrow> errno + node" where
  "mkdirAll m [] (Dir dm es) = Inr (Dir dm es)"
| "mkdirAll m [] (File b fm) = Inl ENOTDIR"
| "mkdirAll m (c # cs) (File b fm) = Inl ENOTDIR"
| "mkdirAll m (c # cs) (Dir dm es) =
     (case map_of es c of
        Some x \<Rightarrow> (case mkdirAll m cs x of Inl e \<Rightarrow> Inl e | Inr x' \<Rightarrow> Inr (Dir dm (upd c x' es)))
      | None \<Rightarrow> (case mkdirAll m cs (Dir m []) of Inl e \<Rightarrow> Inl e | Inr x' \<Rightarrow> Inr (Dir dm (es @ [(c, x')]))))"

text \<open>
  \<^verbatim>\<open>os.Create\<close> (create or truncate; new files get \<^verbatim>\<open>0666\<close> under the
  umask), writing the bytes of \<^verbatim>\<open>io.Copy\<close> into the created file, and
  \<^verbatim>\<open>os.Chmod\<close>.
\<close>

definition create :: "mode \<Rightarrow> path \<Rightarrow> node \<Rightarrow> errno + node" where
  "create u p d =
     (case get d p of
        Some (Dir dm es) \<Rightarrow> Inl EISDIR
      | Some (File b fm) \<Rightarrow> Inr (put p (File [] fm) d)
      | None \<Rightarrow>
          (case get d (butlast p) of
             Some (Dir dm es) \<Rightarrow> Inr (put p (File [] (masked u 438)) d)
           | Some (File b fm) \<Rightarrow> Inl ENOTDIR
           | None \<Rightarrow> Inl ENOENT))"

definition writeAll :: "path \<Rightarrow> bytes \<Rightarrow> node \<Rightarrow> errno + node" where
  "writeAll p b d =
     (case get d p of
        Some (File b0 fm) \<Rightarrow> Inr (put p (File b fm) d)
      | Some (Dir dm es) \<Rightarrow> Inl EISDIR
      | None \<Rightarrow> Inl ENOENT)"

definition chmod :: "path \<Rightarrow> mode \<Rightarrow> node \<Rightarrow> errno + node" where
  "chmod p m d =
     (case get d p of
        Some (File b fm) \<Rightarrow> Inr (put p (File b m) d)
      | Some (Dir dm es) \<Rightarrow> Inr (put p (Dir m es) d)
      | None \<Rightarrow> Inl ENOENT)"

subsection \<open>The state of the process's surroundings\<close>

datatype syscall =
    Lstat path
  | ReadDirNames path
  | OpenSrc path
  | SysMkdirAll path mode
  | SysCreate path
  | SysCopy path
  | SysChmod path mode
  | SysRemoveAll path

text \<open>The lines that \<^verbatim>\<open>backup.go\<close> and \<^verbatim>\<open>main.go\<close> write with \<^verbatim>\<open>log.Printf\<close>.\<close>

datatype logline =
    StartingBackup string            \<comment> \<open>\<^verbatim>\<open>Starting backup of: %s\<close>\<close>
  | CopiedTo string path             \<comment> \<open>\<^verbatim>\<open>Successfully copied %s to %s\<close>\<close>
  | DryRunNote                       \<comment> \<open>\<^verbatim>\<open>Dry run: Would upload backup to cloud drives\<close>\<close>
  | GDriveFailed error               \<comment> \<open>\<^verbatim>\<open>Google Drive upload failed: %v\<close>\<close>
  | GDriveUploaded                   \<comment> \<open>\<^verbatim>\<open>Successfully uploaded to Google Drive\<close>\<close>
  | PCloudFailed error               \<comment> \<open>\<^verbatim>\<open>pCloud upload failed: %v\<close>\<close>
  | PCloudUploaded                   \<comment> \<open>\<^verbatim>\<open>Successfully uploaded to pCloud\<close>\<close>
  | UploadResult string              \<comment> \<open>\<^verbatim>\<open>Upload result: %s\<close>\<close>
  | Completed nat nat                \<comment> \<open>\<^verbatim>\<open>Backup completed successfully (%d/2 uploads succeeded)\<close>,
                                          with the count and the denominator written in the format\<close>
  | CleanupWarning path error        \<comment> \<open>\<^verbatim>\<open>Warning: Failed to cleanup temp directory %s: %v\<close>\<close>
  | TempDirWarning error             \<comment> \<open>\<^verbatim>\<open>Warning: Failed to create temp directory: %v\<close>\<close>
  | SchedulerStarting int            \<comment> \<open>\<^verbatim>\<open>Starting scheduler with interval: %v\<close>\<close>
  | SchedulerStopped                 \<comment> \<open>\<^verbatim>\<open>Scheduler stopped\<close>\<close>
  | ScheduledBackupFailed error      \<comment> \<open>\<^verbatim>\<open>Scheduled backup failed: %v\<close>\<close>
  | InitialBackupFailed error        \<comment> \<open>\<^verbatim>\<open>Initial backup failed: %v\<close>\<close>

text \<open>
  \<open>source\<close> is the tree at \<^verbatim>\<open>config.SourceFolder\<close> (\<open>None\<close>: nothing there);
  it lies outside the temporary area and does not change during a cycle.
  \<open>disk\<close> is the tree at \<^verbatim>\<open>os.TempDir()\<close>, and the paths of the staging area
  are relative to it. \<open>fails\<close> tells of each local system call, by its running
  number, whether it fails; \<open>trace\<close> lists the calls made. \<open>now\<close> is the clock
  as \<^verbatim>\<open>time.Now().Format("2006-01-02_15-04-05")\<close> renders it. \<open>gd\<close> and \<open>pc\<close> are
  the surroundings of the two upload tasks.
\<close>

record world =
  source :: "node option"
  disk :: node
  umask :: mode
  fails :: "nat \<Rightarrow> bool"
  trace :: "syscall list"
  now :: string
  wlog :: "logline list"
  gd :: remote
  pc :: remote

definition logf :: "logline \<Rightarrow> world \<Rightarrow> world" where
  "logf l w = w\<lparr>wlog := wlog w @ [l]\<rparr>"

text \<open>One system call: it is recorded, and the oracle says whether it fails.\<close>

definition sys :: "syscall \<Rightarrow> world \<Rightarrow> bool \<times> world" where
  "sys c w = (fails w (length (trace w)), w\<lparr>trace := trace w @ [c]\<rparr>)"

definition on_disk :: "syscall \<Rightarrow> (node \<Rightarrow> errno + node) \<Rightarrow> world \<Rightarrow> error option \<times> world" where
  "on_disk c f w =
     (case sys c w of
        (True, w1) \<Rightarrow> (Some (SysErr EIO), w1)
      | (False, w1) \<Rightarrow>
          (case f (disk w1) of
             Inl e \<Rightarrow> (Some (SysErr e), w1)
           | Inr d \<Rightarrow> (None, w1\<lparr>disk := d\<rparr>)))"

definition MkdirAll :: "path \<Rightarrow> mode \<Rightarrow> world \<Rightarrow> error option \<times> world" where
  "MkdirAll p m w = on_disk (SysMkdirAll p m) (mkdirAll (masked (umask w) m) p) w"

definition Create :: "path \<Rightarrow> world \<Rightarrow> error option \<times> world" where
  "Create p w = on_disk (SysCreate p) (create (umask w) p) w"

definition Copy :: "path \<Rightarrow> bytes \<Rightarrow> world \<Rightarrow> error option \<times> world" where
  "Copy p b w = on_disk (SysCopy p) (writeAll p b) w"

definition Chmod :: "path \<Rightarrow> mode \<Rightarrow> world \<Rightarrow> error option \<times> world" where
  "Chmod p m w = on_disk (SysChmod p m) (chmod p m) w"

definition RemoveAll :: "path \<Rightarrow> world \<Rightarrow> error option \<times> world" where
  "RemoveAll p w = on_disk (SysRemoveAll p) (\<lambda>d. Inr (del p d)) w"

subsection \<open>The directory cloner (\<^verbatim>\<open>backup.go\<close>)\<close>

text \<open>
  \<^verbatim>\<open>copyFile(src, dst, mode)\<close>; the source file is given by the path \<open>rel\<close>
  below the source folder and by its bytes.
\<close>

definition copyFile :: "path \<Rightarrow> bytes \<Rightarrow> path \<Rightarrow> mode \<Rightarrow> world \<Rightarrow> error option \<times> world" where
  "copyFile rel content dst m w =
     (case sys (OpenSrc rel) w of
        (True, w1) \<Rightarrow> (Some (SysErr EIO), w1)
      | (False, w1) \<Rightarrow>
          (case MkdirAll (butlast dst) 493 w1 of
             (Some err, w2) \<Rightarrow> (Some err, w2)
           | (None, w2) \<Rightarrow>
               (case Create dst w2 of
                  (Some err, w3) \<Rightarrow> (Some err, w3)
                | (None, w3) \<Rightarrow>
                    (case Copy dst content w3 of
                       (Some err, w4) \<Rightarrow> (Some err, w4)
                     | (None, w4) \<Rightarrow> Chmod dst m w4))))"

text \<open>
  The function literal that \<^verbatim>\<open>copyDirectory\<close> hands to \<^verbatim>\<open>filepath.Walk\<close>:
  \<open>rel\<close> is \<^verbatim>\<open>filepath.Rel(src, path)\<close>, \<open>dst @ rel\<close> is
  \<^verbatim>\<open>filepath.Join(dst, relPath)\<close>, \<open>info\<close> is the visited entry.
\<close>

definition visit :: "path \<Rightarrow> path \<Rightarrow> node \<Rightarrow> error option \<Rightarrow> world \<Rightarrow> error option \<times> world" where
  "visit dst rel info err w =
     (case err of
        Some e \<Rightarrow> (Some e, w)
      | None \<Rightarrow>
          (case info of
             Dir m es \<Rightarrow> MkdirAll (dst @ rel) m w
           | File b m \<Rightarrow> copyFile rel b (dst @ rel) m w))"

text \<open>
  \<^verbatim>\<open>filepath.Walk\<close>: every entry is \<^verbatim>\<open>Lstat\<close>ed, the names of a directory are
  read before the function is called on it, the entries follow in order, and
  the first error returned by the function ends the walk.
\<close>

fun Walk :: "path \<Rightarrow> path \<Rightarrow> node \<Rightarrow> world \<Rightarrow> error option \<times> world"
  and Walk_entries :: "path \<Rightarrow> path \<Rightarrow> (string \<times> node) list \<Rightarrow> world \<Rightarrow> error option \<times> world" where
  "Walk dst rel (File b m) w =
     (case sys (Lstat rel) w of
        (True, w1) \<Rightarrow> visit dst rel (File b m) (Some (SysErr EIO)) w1
      | (False, w1) \<Rightarrow> visit dst rel (File b m) None w1)"
| "Walk dst rel (Dir m es) w =
     (case sys (Lstat rel) w of
        (True, w1) \<Rightarrow> visit dst rel (Dir m es) (Some (SysErr EIO)) w1
      | (False, w1) \<Rightarrow>
          (case sys (ReadDirNames rel) w1 of
             (True, w2) \<Rightarrow> visit dst rel (Dir m es) (Some (SysErr EIO)) w2
           | (False, w2) \<Rightarrow>
               (case visit dst rel (Dir m es) None w2 of
                  (Some err, w3) \<Rightarrow> (Some err, w3)
                | (None, w3) \<Rightarrow> Walk_entries dst rel es w3)))"
| "Walk_entries dst rel [] w = (None, w)"
| "Walk_entries dst rel ((name, entry) # rest) w =
     (case Walk dst (rel @ [name]) entry w of
        (Some err, w1) \<Rightarrow> (Some err, w1)
      | (None, w1) \<Rightarrow> Walk_entries dst rel rest w1)"

definition copyDirectory :: "path \<Rightarrow> world \<Rightarrow> error option \<times> world" where
  "copyDirectory dst w =
     (case source w of
        None \<Rightarrow> (case sys (Lstat []) w of (failed, w1) \<Rightarrow> (Some (SysErr (if failed then EIO else ENOENT)), w1))
      | Some tree \<Rightarrow> Walk dst [] tree w)"

subsection \<open>Configuration (\<^verbatim>\<open>main.go\<close>, \<^verbatim>\<open>config.go\<close>)\<close>

text \<open>\<^verbatim>\<open>time.Duration\<close> counts nanoseconds.\<close>

type_synonym duration = int

definition Hour :: duration where
  "Hour = 3600000000000"

record Config =
  SourceFolder :: string
  BackupInterval :: duration
  ConfigFile :: string
  GoogleDriveAuth :: string
  PCloudAuth :: string
  DryRun :: bool
  Verbose :: bool

record ConfigFile =
  cf_SourceFolder :: string
  cf_BackupInterval :: string
  cf_GoogleDriveAuth :: string
  cf_PCloudAuth :: string
  cf_Excludes :: "string list"
  cf_DryRun :: bool
  cf_Verbose :: bool
  cf_MaxBackups :: int

text \<open>
  \<^verbatim>\<open>MergeConfigWithFlags\<close>; the library function \<^verbatim>\<open>time.ParseDuration\<close> is the
  parameter \<open>ParseDuration\<close> (\<open>None\<close>: it returns an error).
\<close>

definition MergeConfigWithFlags :: "(string \<Rightarrow> duration option) \<Rightarrow> ConfigFile \<Rightarrow> Config \<Rightarrow> Config" where
  "MergeConfigWithFlags ParseDuration cfile flags =
     (let result1 = (if SourceFolder flags = [] \<and> cf_SourceFolder cfile \<noteq> []
                     then flags\<lparr>SourceFolder := cf_SourceFolder cfile\<rparr> else flags);
          result2 = (if GoogleDriveAuth result1 = [] \<and> cf_GoogleDriveAuth cfile \<noteq> []
                     then result1\<lparr>GoogleDriveAuth := cf_GoogleDriveAuth cfile\<rparr> else result1);
          result3 = (if PCloudAuth result2 = [] \<and> cf_PCloudAuth cfile \<noteq> []
                     then result2\<lparr>PCloudAuth := cf_PCloudAuth cfile\<rparr> else result2);
          result4 = (if BackupInterval result3 = Hour \<and> cf_BackupInterval cfile \<noteq> []
                     then (case ParseDuration (cf_BackupInterval cfile) of
                             Some interval \<Rightarrow> result3\<lparr>BackupInterval := interval\<rparr>
                           | None \<Rightarrow> result3)
                     else result3);
          result5 = (if \<not> DryRun flags \<and> cf_DryRun cfile
                     then result4\<lparr>DryRun := cf_DryRun cfile\<rparr> else result4);
          result6 = (if \<not> Verbose flags \<and> cf_Verbose cfile
                     then result5\<lparr>Verbose := cf_Verbose cfile\<rparr> else result5)
      in result6)"

text \<open>\<^verbatim>\<open>filepath.Base\<close>.\<close>

definition Base :: "string \<Rightarrow> string" where
  "Base p =
     (if p = [] then ''.''
      else let stripped = rev (dropWhile (\<lambda>c. c = CHR ''/'') (rev p));
               name = rev (takeWhile (\<lambda>c. c \<noteq> CHR ''/'') (rev stripped))
           in if name = [] then ''/'' else name)"

subsection \<open>The backup manager (\<^verbatim>\<open>backup.go\<close>)\<close>

text \<open>
  A nil adapter pointer is \<open>None\<close>. \<open>tempDir\<close> is relative to \<^verbatim>\<open>os.TempDir()\<close>.
\<close>

record BackupManager =
  config :: Config
  gdrive :: "GoogleDriveClient option"
  pcloud :: "PCloudClient option"
  tempDir :: path

record BackupResult =
  Success :: bool
  Message :: string
  Error :: "error option"
  Timestamp :: string

definition NewBackupManager :: "Config \<Rightarrow> world \<Rightarrow> BackupManager \<times> world" where
  "NewBackupManager cfg w =
     (let tmp = [''datavault_backups''];
          w1 = (case MkdirAll tmp 493 w of
                  (Some err, w') \<Rightarrow> logf (TempDirWarning err) w'
                | (None, w') \<Rightarrow> w');
          (g, w2) = (if GoogleDriveAuth cfg \<noteq> []
                     then (case NewGoogleDriveClient (GoogleDriveAuth cfg) (gd w1) of
                             (client, r) \<Rightarrow> (client, w1\<lparr>gd := r\<rparr>))
                     else (None, w1));
          (p, w3) = (if PCloudAuth cfg \<noteq> []
                     then (case NewPCloudClient (PCloudAuth cfg) (pc w2) of
                             (client, r) \<Rightarrow> (client, w2\<lparr>pc := r\<rparr>))
                     else (None, w2))
      in (\<lparr>config = cfg, gdrive = g, pcloud = p, tempDir = tmp\<rparr>, w3))"

definition cleanup :: "path \<Rightarrow> world \<Rightarrow> world" where
  "cleanup p w =
     (case RemoveAll p w of
        (Some err, w1) \<Rightarrow> logf (CleanupWarning p err) w1
      | (None, w1) \<Rightarrow> w1)"

text \<open>
  The two upload tasks of \<^verbatim>\<open>RunBackup\<close>. Each goroutine works on its own
  provider and only reads the staged tree, so the tasks are run one after the
  other; the list holds the two values sent on the \<^verbatim>\<open>results\<close> channel (their
  order of arrival, which the source leaves open, is that of the list).
\<close>

definition gdrive_task :: "ctx \<Rightarrow> BackupManager \<Rightarrow> path \<Rightarrow> string \<Rightarrow> world \<Rightarrow> BackupResult \<times> world" where
  "gdrive_task ctx bm destPath backupName w =
     (case gdrive bm of
        Some client \<Rightarrow>
          (case g_UploadFolder ctx client (get (disk w) destPath) backupName (gd w) of
             (Some err, r) \<Rightarrow>
               (\<lparr>Success = False, Message = ''Google Drive upload failed'', Error = Some err, Timestamp = now w\<rparr>,
                logf (GDriveFailed err) (w\<lparr>gd := r\<rparr>))
           | (None, r) \<Rightarrow>
               (\<lparr>Success = True, Message = ''Google Drive upload successful'', Error = None, Timestamp = now w\<rparr>,
                logf GDriveUploaded (w\<lparr>gd := r\<rparr>)))
      | None \<Rightarrow>
          (\<lparr>Success = False, Message = ''Google Drive not configured'', Error = None, Timestamp = now w\<rparr>, w))"

definition pcloud_task :: "ctx \<Rightarrow> BackupManager \<Rightarrow> path \<Rightarrow> string \<Rightarrow> world \<Rightarrow> BackupResult \<times> world" where
  "pcloud_task ctx bm destPath backupName w =
     (case pcloud bm of
        Some client \<Rightarrow>
          (case p_UploadFolder ctx client (get (disk w) destPath) backupName (pc w) of
             (Some err, r) \<Rightarrow>
               (\<lparr>Success = False, Message = ''pCloud upload failed'', Error = Some err, Timestamp = now w\<rparr>,
                logf (PCloudFailed err) (w\<lparr>pc := r\<rparr>))
           | (None, r) \<Rightarrow>
               (\<lparr>Success = True, Message = ''pCloud upload successful'', Error = None, Timestamp = now w\<rparr>,
                logf PCloudUploaded (w\<lparr>pc := r\<rparr>)))
      | None \<Rightarrow>
          (\<lparr>Success = False, Message = ''pCloud not configured'', Error = None, Timestamp = now w\<rparr>, w))"

definition upload_tasks :: "ctx \<Rightarrow> BackupManager \<Rightarrow> path \<Rightarrow> string \<Rightarrow> world \<Rightarrow> BackupResult list \<times> world" where
  "upload_tasks ctx bm destPath backupName w =
     (case gdrive_task ctx bm destPath backupName w of
        (res1, w1) \<Rightarrow>
          (case pcloud_task ctx bm destPath backupName w1 of
             (res2, w2) \<Rightarrow> ([res1, res2], w2)))"

text \<open>
  The loop \<^verbatim>\<open>for i := 0; i < 2; i++\<close> that receives the results and counts the
  successful ones.
\<close>

fun receive :: "bool \<Rightarrow> BackupResult list \<Rightarrow> nat \<Rightarrow> world \<Rightarrow> nat \<times> world" where
  "receive verbose [] successCount w = (successCount, w)"
| "receive verbose (res # rest) successCount w =
     receive verbose rest
       (if Success res then successCount + 1 else successCount)
       (if verbose then logf (UploadResult (Message res)) w else w)"

text \<open>
  \<^verbatim>\<open>RunBackup\<close> from the statement after \<^verbatim>\<open>defer bm.cleanup(backupPath)\<close> to
  its return, and \<^verbatim>\<open>RunBackup\<close> itself, which runs the deferred call on every
  return of that part.
\<close>

definition RunBackup_deferred :: "ctx \<Rightarrow> BackupManager \<Rightarrow> string \<Rightarrow> path \<Rightarrow> world \<Rightarrow> error option \<times> world" where
  "RunBackup_deferred ctx bm backupName backupPath w =
     (let destPath = backupPath @ [Base (SourceFolder (config bm))] in
      case copyDirectory destPath w of
        (Some err, w1) \<Rightarrow> (Some (Wrapped ''failed to copy source directory'' err), w1)
      | (None, w1) \<Rightarrow>
          (let w2 = logf (CopiedTo (SourceFolder (config bm)) destPath) w1 in
           if DryRun (config bm) then (None, logf DryRunNote w2)
           else
             (case upload_tasks ctx bm destPath backupName w2 of
                (results, w3) \<Rightarrow>
                  (case receive (Verbose (config bm)) results 0 w3 of
                     (successCount, w4) \<Rightarrow>
                       if successCount = 0 then (Some (Msg ''all uploads failed''), w4)
                       else (None, logf (Completed successCount 2) w4)))))"

definition RunBackup :: "ctx \<Rightarrow> BackupManager \<Rightarrow> world \<Rightarrow> error option \<times> world" where
  "RunBackup ctx bm w =
     (let w0 = logf (StartingBackup (SourceFolder (config bm))) w;
          timestamp = now w0;
          backupName = ''backup_'' @ timestamp;
          backupPath = tempDir bm @ [backupName]
      in case MkdirAll backupPath 493 w0 of
           (Some err, w1) \<Rightarrow> (Some (Wrapped ''failed to create backup directory'' err), w1)
         | (None, w1) \<Rightarrow>
             (case RunBackup_deferred ctx bm backupName backupPath w1 of
                (res, w2) \<Rightarrow> (res, cleanup backupPath w2)))"

subsection \<open>The scheduler (\<^verbatim>\<open>backup.go\<close>, \<^verbatim>\<open>main.go\<close>)\<close>

text \<open>
  What one \<^verbatim>\<open>select\<close> of the scheduler's loop receives: the context is done,
  or the ticker fired (with the clock reading at that moment). The loop is run
  on the list of these events; \<open>None\<close> as the result says that the loop has
  consumed them all and is still waiting, \<open>Some e\<close> that \<^verbatim>\<open>StartScheduler\<close>
  returned \<open>e\<close>.
\<close>

datatype event = CtxDone | Tick string

fun scheduler_loop :: "ctx \<Rightarrow> event list \<Rightarrow> BackupManager \<Rightarrow> world \<Rightarrow> error option \<times> world" where
  "scheduler_loop ctx [] bm w = (None, w)"
| "scheduler_loop ctx (CtxDone # evs) bm w = (Some Canceled, logf SchedulerStopped w)"
| "scheduler_loop ctx (Tick t # evs) bm w =
     (case RunBackup ctx bm (w\<lparr>now := t\<rparr>) of
        (Some err, w1) \<Rightarrow> scheduler_loop ctx evs bm (logf (ScheduledBackupFailed err) w1)
      | (None, w1) \<Rightarrow> scheduler_loop ctx evs bm w1)"

definition StartScheduler :: "ctx \<Rightarrow> event list \<Rightarrow> BackupManager \<Rightarrow> world \<Rightarrow> error option \<times> world" where
  "StartScheduler ctx evs bm w =
     (let w1 = logf (SchedulerStarting (BackupInterval (config bm))) w in
      if BackupInterval (config bm) \<le> 0
      then (Some (Panic ''non-positive interval for NewTicker''), w1)
      else scheduler_loop ctx evs bm w1)"

text \<open>
  The end of \<^verbatim>\<open>main\<close>: the initial backup, then the scheduler.
\<close>

definition main_run :: "ctx \<Rightarrow> event list \<Rightarrow> BackupManager \<Rightarrow> world \<Rightarrow> error option \<times> world" where
  "main_run ctx evs bm w =
     (case RunBackup ctx bm w of
        (Some err, w1) \<Rightarrow> StartScheduler ctx evs bm (logf (InitialBackupFailed err) w1)
      | (None, w1) \<Rightarrow> StartScheduler ctx evs bm w1)"

subsection \<open>Notions used to state the properties\<close>

text \<open>
  \<open>staged\<close> follows \<^verbatim>\<open>RunBackup\<close> up to the return of \<^verbatim>\<open>copyDirectory\<close>: when the
  staging directory could be created and the source was cloned, it yields the
  staged path, the run label and the state reached. A cycle reaches the upload
  phase when, besides, the run is not a dry run; \<open>staged_for_upload\<close> then
  yields the state in which the uploads start, and \<open>outcomes\<close> are the results
  that the two upload tasks send.
\<close>

definition staged :: "BackupManager \<Rightarrow> world \<Rightarrow> (path \<times> string \<times> world) option" where
  "staged bm w =
     (let w0 = logf (StartingBackup (SourceFolder (config bm))) w;
          backupName = ''backup_'' @ now w0;
          backupPath = tempDir bm @ [backupName];
          destPath = backupPath @ [Base (SourceFolder (config bm))]
      in case MkdirAll backupPath 493 w0 of
           (Some err, w1) \<Rightarrow> None
         | (None, w1) \<Rightarrow>
             (case copyDirectory destPath w1 of
                (Some err, w2) \<Rightarrow> None
              | (None, w2) \<Rightarrow> Some (destPath, backupName, w2)))"

definition staged_for_upload :: "BackupManager \<Rightarrow> world \<Rightarrow> (path \<times> string \<times> world) option" where
  "staged_for_upload bm w =
     (case staged bm w of
        None \<Rightarrow> None
      | Some (destPath, backupName, w2) \<Rightarrow>
          if DryRun (config bm) then None
          else Some (destPath, backupName, logf (CopiedTo (SourceFolder (config bm)) destPath) w2))"

definition outcomes :: "ctx \<Rightarrow> BackupManager \<Rightarrow> world \<Rightarrow> BackupResult list" where
  "outcomes ctx bm w =
     (case staged_for_upload bm w of
        Some (destPath, backupName, w2) \<Rightarrow> fst (upload_tasks ctx bm destPath backupName w2)
      | None \<Rightarrow> [])"

text \<open>
  The scenario of the specification: the source tree \<^verbatim>\<open>{a.txt (3 bytes), sub/b.txt (0 bytes)}\<close>,
  both backends configured and healthy.
\<close>

definition scenario_tree :: node where
  "scenario_tree = Dir 493 [(''a.txt'', File ''abc'' 420), (''sub'', Dir 493 [(''b.txt'', File [] 420)])]"

definition healthy :: remote where
  "healthy = \<lparr>objs = [], next_id = 1, replies = (\<lambda>k. Served), clock = 0\<rparr>"

definition scenario_world :: world where
  "scenario_world =
     \<lparr>source = Some scenario_tree, disk = Dir 493 [], umask = 18, fails = (\<lambda>k. False), trace = [],
      now = ''2024-01-15_14-30-25'', wlog = [], gd = healthy, pc = healthy\<rparr>"

definition scenario_config :: Config where
  "scenario_config =
     \<lparr>SourceFolder = ''/home/u/docs'', BackupInterval = Hour, ConfigFile = ''datavault.json'',
      GoogleDriveAuth = ''credentials.json'', PCloudAuth = ''token'', DryRun = False, Verbose = False\<rparr>"

definition scenario_bm :: BackupManager where
  "scenario_bm =
     \<lparr>config = scenario_config,
      gdrive = Some \<lparr>service = True, authFile = ''credentials.json'', g_rootFolderID = 1\<rparr>,
      pcloud = Some \<lparr>authToken = ''token'', baseURL = ''https://api.pcloud.com'', p_rootFolderID = 1\<rparr>,
      tempDir = [''datavault_backups'']\<rparr>"

text \<open>
  The number of configured backends of a manager (the adapters that are not
  nil), and the completion reports \<open>(count, denominator)\<close> among the log lines
  written between two states.
\<close>

definition configured :: "BackupManager \<Rightarrow> nat" where
  "configured bm =
     (case gdrive bm of None \<Rightarrow> 0 | Some client \<Rightarrow> 1) + (case pcloud bm of None \<Rightarrow> 0 | Some client \<Rightarrow> 1)"

fun report_of :: "logline \<Rightarrow> (nat \<times> nat) option" where
  "report_of (Completed k n) = Some (k, n)"
| "report_of l = None"

definition reported :: "world \<Rightarrow> world \<Rightarrow> (nat \<times> nat) list" where
  "reported w w' = List.map_filter report_of (drop (length (wlog w)) (wlog w'))"

definition is_report :: "logline \<Rightarrow> bool" where
  "is_report l \<longleftrightarrow> report_of l \<noteq> None"

text \<open>
  The scenario with the Google Drive credentials left empty: the manager that
  \<^verbatim>\<open>NewBackupManager\<close> builds, and the state it leaves.
\<close>

definition pcloud_only :: "BackupManager \<times> world" where
  "pcloud_only = NewBackupManager (scenario_config\<lparr>GoogleDriveAuth := []\<rparr>) scenario_world"

text \<open>
  Local system calls change nothing but the disk and the trace of calls
  (\<open>fs_only\<close>). \<open>adds_no P w w'\<close> says that the log of \<open>w'\<close> extends that of
  \<open>w\<close> by lines none of which satisfies \<open>P\<close>; \<open>plain P\<close> says that \<open>P\<close> selects
  only among the lines that mark the course of cycles and of the scheduler.
\<close>

definition fs_only :: "world \<Rightarrow> world \<Rightarrow> bool" where
  "fs_only w w' \<longleftrightarrow>
     source w' = source w \<and> umask w' = umask w \<and> fails w' = fails w \<and> now w' = now w \<and>
     wlog w' = wlog w \<and> gd w' = gd w \<and> pc w' = pc w"

fun control_line :: "logline \<Rightarrow> bool" where
  "control_line (StartingBackup s) = True"
| "control_line (Completed k n) = True"
| "control_line (ScheduledBackupFailed e) = True"
| "control_line (InitialBackupFailed e) = True"
| "control_line (SchedulerStarting i) = True"
| "control_line SchedulerStopped = True"
| "control_line l = False"

definition adds_no :: "(logline \<Rightarrow> bool) \<Rightarrow> world \<Rightarrow> world \<Rightarrow> bool" where
  "adds_no P w w' \<longleftrightarrow> (\<exists>ls. wlog w' = wlog w @ ls \<and> (\<forall>l \<in> set ls. \<not> P l))"

definition plain :: "(logline \<Rightarrow> bool) \<Rightarrow> bool" where
  "plain P \<longleftrightarrow> (\<forall>l. P l \<longrightarrow> control_line l)"

text \<open>
  The staging directory of a cycle has been created when the \<^verbatim>\<open>os.MkdirAll\<close>
  at the head of \<^verbatim>\<open>RunBackup\<close> returns nil.
\<close>

definition staging_created :: "BackupManager \<Rightarrow> world \<Rightarrow> bool" where
  "staging_created bm w \<longleftrightarrow>
     fst (MkdirAll (tempDir bm @ [''backup_'' @ now w]) 493 (logf (StartingBackup (SourceFolder (config bm))) w)) = None"

text \<open>
  A state in which nothing lies at the source folder and every local call
  from the third on fails.
\<close>

definition failing_world :: world where
  "failing_world = scenario_world\<lparr>source := None, fails := (\<lambda>k. 2 \<le> k)\<rparr>"

text \<open>
  Cycles are counted by their first log line. \<open>cycle_results\<close> are the values
  that \<^verbatim>\<open>RunBackup\<close> returns in the cycles of the scheduler's loop,
  \<open>main_results\<close> those of all cycles that \<^verbatim>\<open>main\<close> drives, the initial one first.
\<close>

fun is_start :: "logline \<Rightarrow> bool" where
  "is_start (StartingBackup s) = True"
| "is_start l = False"

fun failure_of :: "logline \<Rightarrow> error option" where
  "failure_of (ScheduledBackupFailed e) = Some e"
| "failure_of (InitialBackupFailed e) = Some e"
| "failure_of l = None"

fun is_tick :: "event \<Rightarrow> bool" where
  "is_tick (Tick t) = True"
| "is_tick CtxDone = False"

definition new_lines :: "world \<Rightarrow> world \<Rightarrow> logline list" where
  "new_lines w w' = drop (length (wlog w)) (wlog w')"

fun cycle_results :: "ctx \<Rightarrow> event list \<Rightarrow> BackupManager \<Rightarrow> world \<Rightarrow> error option list" where
  "cycle_results ctx [] bm w = []"
| "cycle_results ctx (CtxDone # evs) bm w = []"
| "cycle_results ctx (Tick t # evs) bm w =
     (case RunBackup ctx bm (w\<lparr>now := t\<rparr>) of
        (Some err, w1) \<Rightarrow> Some err # cycle_results ctx evs bm (logf (ScheduledBackupFailed err) w1)
      | (None, w1) \<Rightarrow> None # cycle_results ctx evs bm w1)"

definition main_results :: "ctx \<Rightarrow> event list \<Rightarrow> BackupManager \<Rightarrow> world \<Rightarrow> error option list" where
  "main_results ctx evs bm w =
     (case RunBackup ctx bm w of
        (Some err, w1) \<Rightarrow>
          Some err # cycle_results ctx evs bm
                       (logf (SchedulerStarting (BackupInterval (config bm))) (logf (InitialBackupFailed err) w1))
      | (None, w1) \<Rightarrow>
          None # cycle_results ctx evs bm (logf (SchedulerStarting (BackupInterval (config bm))) w1))"

text \<open>
  \<open>grows r r'\<close>: the provider state \<open>r'\<close> extends \<open>r\<close> by new objects, later in
  the task's sequence of calls and under the same oracle.
\<close>

definition grows :: "remote \<Rightarrow> remote \<Rightarrow> bool" where
  "grows r r' \<longleftrightarrow>
     (\<exists>os. objs r' = objs r @ os) \<and> replies r' = replies r \<and> clock r \<le> clock r' \<and> next_id r \<le> next_id r'"

text \<open>
  Adapters that have not resolved their root folder yet, the results of
  resolving it against an empty provider, a provider that refuses the fourth
  call of a task, one that refuses the first, and a tree with two files in a
  sub-directory.
\<close>

definition fresh_gdrive :: GoogleDriveClient where
  "fresh_gdrive = \<lparr>service = True, authFile = ''credentials.json'', g_rootFolderID = 0\<rparr>"

definition fresh_pcloud :: PCloudClient where
  "fresh_pcloud = \<lparr>authToken = ''token'', baseURL = ''https://api.pcloud.com'', p_rootFolderID = 0\<rparr>"

definition gdrive_resolved :: "error option \<times> GoogleDriveClient \<times> remote" where
  "gdrive_resolved = g_ensureRootFolder fresh_gdrive healthy"

definition pcloud_resolved :: "error option \<times> PCloudClient \<times> remote" where
  "pcloud_resolved = p_ensureRootFolder fresh_pcloud healthy"

definition flaky :: remote where
  "flaky = healthy\<lparr>replies := (\<lambda>k. if k = 3 then Refused else Served)\<rparr>"


definition nested_tree :: node where
  "nested_tree = Dir 493 [(''sub'', Dir 493 [(''a.txt'', File ''abc'' 420), (''b.txt'', File ''xyz'' 420)])]"

text \<open>
  What a local tree and a remote tree have in common: names, file bytes and
  the nesting of directories. \<open>shape\<close> forgets the permission bits of a local
  tree.
\<close>

datatype tree = TFile bytes | TDir "(string \<times> tree) list"

fun shape :: "node \<Rightarrow> tree" and shapes :: "(string \<times> node) list \<Rightarrow> (string \<times> tree) list" where
  "shape (File b m) = TFile b"
| "shape (Dir m es) = TDir (shapes es)"
| "shapes [] = []"
| "shapes ((n, x) # es) = (n, shape x) # shapes es"

text \<open>The names of the entries of every directory are distinct.\<close>

fun distinct_names :: "node \<Rightarrow> bool" and all_distinct :: "(string \<times> node) list \<Rightarrow> bool" where
  "distinct_names (File b m) = True"
| "distinct_names (Dir m es) = (distinct (map fst es) \<and> all_distinct es)"
| "all_distinct [] = True"
| "all_distinct ((n, x) # es) = (distinct_names x \<and> all_distinct es)"

text \<open>
  \<open>has_dir d p\<close>: a directory lies at \<open>p\<close>. \<open>vacant d q\<close>: nothing lies at \<open>q\<close>, and
  the parent of \<open>q\<close> is a directory. \<open>settable d q\<close>: \<open>put\<close> takes effect at \<open>q\<close>.
\<close>

definition has_dir :: "node \<Rightarrow> path \<Rightarrow> bool" where
  "has_dir d p \<longleftrightarrow> (case get d p of Some (Dir m es) \<Rightarrow> True | _ \<Rightarrow> False)"

definition vacant :: "node \<Rightarrow> path \<Rightarrow> bool" where
  "vacant d q \<longleftrightarrow> q \<noteq> [] \<and> has_dir d (butlast q) \<and> get d q = None"

fun settable :: "node \<Rightarrow> path \<Rightarrow> bool" where
  "settable d [] = True"
| "settable (File b m) (c # cs) = False"
| "settable (Dir m es) (c # cs) = (case map_of es c of Some y \<Rightarrow> settable y cs | None \<Rightarrow> cs = [])"

text \<open>
  The number of entries of a tree, the number of calls that a task makes to
  mirror it, and its height; the objects that a task creates for the entries
  of a directory under the parent \<open>p\<close> when every call is served, \<open>k\<close> being
  the next identifier of the provider; and the tree that the objects below a
  folder form, read back to the depth \<open>h\<close>.
\<close>

fun nodes :: "node \<Rightarrow> nat" and nodes_entries :: "(string \<times> node) list \<Rightarrow> nat" where
  "nodes (File b m) = 1"
| "nodes (Dir m es) = Suc (nodes_entries es)"
| "nodes_entries [] = 0"
| "nodes_entries ((n, x) # es) = nodes x + nodes_entries es"

fun calls :: "node \<Rightarrow> nat" and calls_entries :: "(string \<times> node) list \<Rightarrow> nat" where
  "calls (File b m) = 2"
| "calls (Dir m es) = Suc (Suc (calls_entries es))"
| "calls_entries [] = 0"
| "calls_entries ((n, x) # es) = calls x + calls_entries es"

fun height :: "node \<Rightarrow> nat" and heights :: "(string \<times> node) list \<Rightarrow> nat" where
  "height (File b m) = 0"
| "height (Dir m es) = Suc (heights es)"
| "heights [] = 0"
| "heights ((n, x) # es) = max (height x) (heights es)"

fun created_node :: "string \<Rightarrow> node \<Rightarrow> ident \<Rightarrow> ident \<Rightarrow> robj list"
  and created :: "(string \<times> node) list \<Rightarrow> ident \<Rightarrow> ident \<Rightarrow> robj list" where
  "created_node n (File b m) p k = [\<lparr>oid = k, parent = p, oname = n, body = Some b, trashed = False\<rparr>]"
| "created_node n (Dir m es) p k =
     \<lparr>oid = k, parent = p, oname = n, body = None, trashed = False\<rparr> # created es k (Suc k)"
| "created [] p k = []"
| "created ((n, x) # es) p k = created_node n x p k @ created es p (k + nodes x)"

fun readback :: "nat \<Rightarrow> robj list \<Rightarrow> ident \<Rightarrow> (string \<times> tree) list" where
  "readback 0 os p = []"
| "readback (Suc h) os p =
     map (\<lambda>f. (oname f, case body f of Some b \<Rightarrow> TFile b | None \<Rightarrow> TDir (readback h os (oid f))))
         (filter (\<lambda>f. parent f = p) os)"

text \<open>
  Every call of the task is served; the provider has handed out every
  identifier it knows of; \<open>after c n os r\<close> is the state \<open>r\<close> after \<open>c\<close> calls that
  created the \<open>n\<close> objects \<open>os\<close>.
\<close>

definition served_throughout :: "remote \<Rightarrow> bool" where
  "served_throughout r \<longleftrightarrow> (\<forall>k. replies r k = Served)"

definition after :: "nat \<Rightarrow> nat \<Rightarrow> robj list \<Rightarrow> remote \<Rightarrow> remote" where
  "after c n os r = r\<lparr>objs := objs r @ os, next_id := next_id r + n, clock := clock r + c\<rparr>"

definition wf_remote :: "remote \<Rightarrow> bool" where
  "wf_remote r \<longleftrightarrow> (\<forall>f \<in> set (objs r). oid f < next_id r \<and> parent f < next_id r)"

definition render :: "nat \<Rightarrow> robj list \<Rightarrow> robj \<Rightarrow> string \<times> tree" where
  "render h os f = (oname f, case body f of Some b \<Rightarrow> TFile b | None \<Rightarrow> TDir (readback h os (oid f)))"

text \<open>The state after cloning the scenario's source tree to \<^verbatim>\<open>docs\<close>.\<close>

definition staged_scenario :: world where
  "staged_scenario = snd (copyDirectory [''docs''] scenario_world)"



section \<open>Properties\<close>

subsection \<open>Basic facts\<close>

lemma logf_fields [simp]:
  "now (logf l w) = now w" "disk (logf l w) = disk w" "source (logf l w) = source w"
  "umask (logf l w) = umask w" "fails (logf l w) = fails w" "trace (logf l w) = trace w"
  "gd (logf l w) = gd w" "pc (logf l w) = pc w" "wlog (logf l w) = wlog w @ [l]"
  by (simp_all add: logf_def)

lemma receive_count:
  "fst (receive v rs n w) = n + length (filter Success rs)"
  by (induction rs arbitrary: n w) auto

lemma stagedD:
  assumes "staged bm w = Some (destPath, backupName, w2)"
  obtains w1 where
    "MkdirAll (tempDir bm @ [''backup_'' @ now w]) 493 (logf (StartingBackup (SourceFolder (config bm))) w) = (None, w1)"
    "copyDirectory destPath w1 = (None, w2)"
    "backupName = ''backup_'' @ now w"
    "destPath = tempDir bm @ [backupName, Base (SourceFolder (config bm))]"
  using assms
  by (auto simp: staged_def Let_def logf_def split: prod.splits option.splits if_splits)

lemma staged_for_uploadD:
  assumes "staged_for_upload bm w = Some (destPath, backupName, w2)"
  obtains w1 w1' where
    "MkdirAll (tempDir bm @ [''backup_'' @ now w]) 493 (logf (StartingBackup (SourceFolder (config bm))) w) = (None, w1)"
    "copyDirectory destPath w1 = (None, w1')"
    "\<not> DryRun (config bm)"
    "backupName = ''backup_'' @ now w"
    "destPath = tempDir bm @ [backupName, Base (SourceFolder (config bm))]"
    "w2 = logf (CopiedTo (SourceFolder (config bm)) destPath) w1'"
proof -
  from assms obtain w1' where s: "staged bm w = Some (destPath, backupName, w1')"
    and d: "\<not> DryRun (config bm)" and w2: "w2 = logf (CopiedTo (SourceFolder (config bm)) destPath) w1'"
    by (auto simp: staged_for_upload_def split: option.splits if_splits)
  from s obtain w1 where
    "MkdirAll (tempDir bm @ [''backup_'' @ now w]) 493 (logf (StartingBackup (SourceFolder (config bm))) w) = (None, w1)"
    "copyDirectory destPath w1 = (None, w1')"
    "backupName = ''backup_'' @ now w"
    "destPath = tempDir bm @ [backupName, Base (SourceFolder (config bm))]"
    by (rule stagedD)
  with d w2 show ?thesis by (intro that)
qed

subsection \<open>The result of a cycle\<close>

lemma RunBackup_upload_phase:
  assumes "staged_for_upload bm w = Some (destPath, backupName, w2)"
      and "upload_tasks ctx bm destPath backupName w2 = (results, w3)"
  shows "fst (RunBackup ctx bm w) =
          (if length (filter Success results) = 0 then Some (Msg ''all uploads failed'') else None)"
proof -
  from assms(1) obtain w1 w1' where
    mk: "MkdirAll (tempDir bm @ [''backup_'' @ now w]) 493 (logf (StartingBackup (SourceFolder (config bm))) w) = (None, w1)"
    and cp: "copyDirectory destPath w1 = (None, w1')"
    and dry: "\<not> DryRun (config bm)"
    and nm: "backupName = ''backup_'' @ now w"
    and dp: "destPath = tempDir bm @ [backupName, Base (SourceFolder (config bm))]"
    and w2: "w2 = logf (CopiedTo (SourceFolder (config bm)) destPath) w1'"
    by (rule staged_for_uploadD)
  have "fst (RunBackup_deferred ctx bm backupName (tempDir bm @ [backupName]) w1) =
          (if length (filter Success results) = 0 then Some (Msg ''all uploads failed'') else None)"
    using cp dry assms(2) receive_count[of "Verbose (config bm)" results 0 w3]
    by (auto simp: RunBackup_deferred_def Let_def dp[symmetric] w2[symmetric] split: prod.splits)
  then show ?thesis
    using mk by (auto simp: RunBackup_def Let_def nm split: prod.splits)
qed

text \<open>
  C1. A cycle that reaches the upload phase returns nil exactly when at least
  one of the backend outcomes is successful; when every outcome is a failure
  (the outcome of a backend that is not configured included), it returns the
  error \<^verbatim>\<open>all uploads failed\<close>.
\<close>

theorem RunBackup_success_iff:
  assumes "staged_for_upload bm w \<noteq> None"
  shows "(fst (RunBackup ctx bm w) = None \<longleftrightarrow> (\<exists>res \<in> set (outcomes ctx bm w). Success res))
       \<and> ((\<forall>res \<in> set (outcomes ctx bm w). \<not> Success res) \<longrightarrow>
            fst (RunBackup ctx bm w) = Some (Msg ''all uploads failed''))"
proof -
  from assms obtain destPath backupName w2 where s: "staged_for_upload bm w = Some (destPath, backupName, w2)"
    by (cases "staged_for_upload bm w") auto
  obtain results w3 where u: "upload_tasks ctx bm destPath backupName w2 = (results, w3)"
    by (cases "upload_tasks ctx bm destPath backupName w2") auto
  have o: "outcomes ctx bm w = results"
    by (simp add: outcomes_def s u)
  show ?thesis
    unfolding RunBackup_upload_phase[OF s u] o
    by (auto simp: filter_empty_conv)
qed

theorem RunBackup_success_iff_witness:
  "staged_for_upload scenario_bm scenario_world \<noteq> None
   \<and> (\<exists>res \<in> set (outcomes None scenario_bm scenario_world). Success res)
   \<and> fst (RunBackup None scenario_bm scenario_world) = None"
proof -
  have a: "staged_for_upload scenario_bm scenario_world \<noteq> None"
    by code_simp
  have "map Success (outcomes None scenario_bm scenario_world) = [True, True]"
    by code_simp
  then have b: "\<exists>res \<in> set (outcomes None scenario_bm scenario_world). Success res"
    by (cases "outcomes None scenario_bm scenario_world") auto
  from RunBackup_success_iff[OF a, of None] a b show ?thesis
    by blast
qed

subsection \<open>What the local calls leave alone\<close>

lemma fs_only_refl [simp]: "fs_only w w"
  by (simp add: fs_only_def)

lemma fs_only_trans: "fs_only w w1 \<Longrightarrow> fs_only w1 w2 \<Longrightarrow> fs_only w w2"
  by (simp add: fs_only_def)

lemma sys_fs_only: "sys c w = (b, w') \<Longrightarrow> fs_only w w'"
  by (auto simp: fs_only_def sys_def)

lemma on_disk_fs_only: "on_disk c f w = (e, w') \<Longrightarrow> fs_only w w'"
  by (auto simp: fs_only_def on_disk_def sys_def split: sum.splits bool.splits if_splits)

lemma fs_calls_fs_only:
  "MkdirAll p m w = (e, w') \<Longrightarrow> fs_only w w'"
  "Create p w = (e, w') \<Longrightarrow> fs_only w w'"
  "Copy p b w = (e, w') \<Longrightarrow> fs_only w w'"
  "Chmod p m w = (e, w') \<Longrightarrow> fs_only w w'"
  "RemoveAll p w = (e, w') \<Longrightarrow> fs_only w w'"
  by (auto simp: MkdirAll_def Create_def Copy_def Chmod_def RemoveAll_def dest: on_disk_fs_only)

lemma copyFile_fs_only: "copyFile rel b dst m w = (e, w') \<Longrightarrow> fs_only w w'"
  unfolding copyFile_def
  by (auto split: prod.splits option.splits bool.splits
           dest!: sys_fs_only fs_calls_fs_only simp: fs_only_def)

lemma visit_fs_only: "visit dst rel info err w = (e, w') \<Longrightarrow> fs_only w w'"
  unfolding visit_def
  by (auto split: option.splits node.splits dest: fs_calls_fs_only copyFile_fs_only)

lemma Walk_fs_only:
  "Walk dst rel x w = (e, w') \<Longrightarrow> fs_only w w'"
  "Walk_entries dst rel es w = (e, w') \<Longrightarrow> fs_only w w'"
proof (induction dst rel x w and dst rel es w arbitrary: e w' and e w' rule: Walk_Walk_entries.induct)
  case (1 dst rel b m w)
  then show ?case
    by (auto split: prod.splits bool.splits dest!: sys_fs_only visit_fs_only simp: fs_only_def)
next
  case (2 dst rel m es w)
  obtain b1 w1 where s1: "sys (Lstat rel) w = (b1, w1)" by (cases "sys (Lstat rel) w")
  obtain b2 w2 where s2: "sys (ReadDirNames rel) w1 = (b2, w2)" by (cases "sys (ReadDirNames rel) w1")
  obtain e3 w3 where s3: "visit dst rel (Dir m es) None w2 = (e3, w3)" by (cases "visit dst rel (Dir m es) None w2")
  have f1: "fs_only w w1" using s1 by (rule sys_fs_only)
  have f2: "fs_only w1 w2" using s2 by (rule sys_fs_only)
  have f3: "fs_only w2 w3" using s3 by (rule visit_fs_only)
  show ?case
  proof (cases "b1 \<or> b2 \<or> e3 \<noteq> None")
    case True
    then show ?thesis
      using "2.prems" s1 s2 s3 f1 f2 f3
      by (auto split: bool.splits option.splits dest!: visit_fs_only simp: fs_only_def)
  next
    case False
    then have "Walk_entries dst rel es w3 = (e, w')"
      using "2.prems" s1 s2 s3 by auto
    with "2.IH" False s1 s2 s3
    have "fs_only w3 w'" by auto
    with f1 f2 f3 show ?thesis by (blast intro: fs_only_trans)
  qed
next
  case (3 dst rel w)
  then show ?case by simp
next
  case (4 dst rel name entry rest w)
  obtain e1 w1 where s1: "Walk dst (rel @ [name]) entry w = (e1, w1)" by (cases "Walk dst (rel @ [name]) entry w")
  have f1: "fs_only w w1" using "4.IH"(1)[OF s1] .
  show ?case
  proof (cases e1)
    case None
    with "4.prems" s1 have "Walk_entries dst rel rest w1 = (e, w')" by simp
    with "4.IH"(2) s1 None have "fs_only w1 w'" by auto
    with f1 show ?thesis by (blast intro: fs_only_trans)
  next
    case (Some a)
    with "4.prems" s1 f1 show ?thesis by simp
  qed
qed

lemma copyDirectory_fs_only: "copyDirectory dst w = (e, w') \<Longrightarrow> fs_only w w'"
  by (auto simp: copyDirectory_def split: option.splits prod.splits dest: sys_fs_only Walk_fs_only)

subsection \<open>What a cycle writes to the log\<close>

lemma adds_no_refl [simp]: "adds_no P w w"
  by (simp add: adds_no_def)

lemma adds_no_trans: "adds_no P w w1 \<Longrightarrow> adds_no P w1 w2 \<Longrightarrow> adds_no P w w2"
  by (auto simp: adds_no_def)

lemma fs_only_adds_no: "fs_only w w' \<Longrightarrow> adds_no P w w'"
  by (simp add: fs_only_def adds_no_def)

lemma adds_no_logf: "\<not> P l \<Longrightarrow> adds_no P w w' \<Longrightarrow> adds_no P w (logf l w')"
  by (auto simp: adds_no_def)

lemma adds_no_same_log: "wlog w' = wlog w1 \<Longrightarrow> adds_no P w w1 \<Longrightarrow> adds_no P w w'"
  by (simp add: adds_no_def)

lemma plainD: "plain P \<Longrightarrow> \<not> control_line l \<Longrightarrow> \<not> P l"
  by (auto simp: plain_def)

lemma plainE: "plain P \<Longrightarrow> P l \<Longrightarrow> control_line l"
  by (auto simp: plain_def)

lemma gdrive_task_adds_no: "plain P \<Longrightarrow> gdrive_task ctx bm d n w = (res, w') \<Longrightarrow> adds_no P w w'"
  by (auto simp: gdrive_task_def split: option.splits prod.splits intro!: adds_no_logf
           intro: adds_no_same_log[where ?w1.0=w] dest: plainE)

lemma pcloud_task_adds_no: "plain P \<Longrightarrow> pcloud_task ctx bm d n w = (res, w') \<Longrightarrow> adds_no P w w'"
  by (auto simp: pcloud_task_def split: option.splits prod.splits intro!: adds_no_logf
           intro: adds_no_same_log[where ?w1.0=w] dest: plainE)

lemma upload_tasks_adds_no: "plain P \<Longrightarrow> upload_tasks ctx bm d n w = (rs, w') \<Longrightarrow> adds_no P w w'"
  by (auto simp: upload_tasks_def split: prod.splits
           dest: gdrive_task_adds_no pcloud_task_adds_no intro: adds_no_trans)

lemma receive_adds_no: "plain P \<Longrightarrow> receive v rs k w = (k', w') \<Longrightarrow> adds_no P w w'"
proof (induction rs arbitrary: k w)
  case Nil
  then show ?case by simp
next
  case (Cons r rs)
  have "adds_no P w (if v then logf (UploadResult (Message r)) w else w)"
    using Cons.prems(1) by (simp add: adds_no_logf plainD)
  with Cons show ?case
    by (auto intro: adds_no_trans simp del: logf_fields)
qed

lemma cleanup_adds_no: "plain P \<Longrightarrow> adds_no P w (cleanup p w)"
proof -
  assume p: "plain P"
  obtain e w1 where r: "RemoveAll p w = (e, w1)" by (cases "RemoveAll p w")
  then have "adds_no P w w1" by (blast intro: fs_only_adds_no fs_calls_fs_only)
  then show ?thesis
    using r p by (cases e) (simp_all add: cleanup_def adds_no_logf plainD)
qed

lemma before_upload_adds_no:
  assumes "plain P" and "MkdirAll p m (logf l w) = (e, w1)" and "copyDirectory d w1 = (e', w2)"
  shows "adds_no P (logf l w) w2"
  using assms(2,3)
  by (blast intro: adds_no_trans fs_only_adds_no fs_calls_fs_only copyDirectory_fs_only)

lemma RunBackup_deferred_adds:
  assumes "plain P" and "RunBackup_deferred ctx bm n p w = (res, w')"
  shows "adds_no P w w' \<or> (\<exists>w1 k. res = None \<and> 0 < k \<and> adds_no P w w1 \<and> w' = logf (Completed k 2) w1)"
proof -
  let ?d = "p @ [Base (SourceFolder (config bm))]"
  obtain e w1 where c: "copyDirectory ?d w = (e, w1)" by (cases "copyDirectory ?d w")
  then have a1: "adds_no P w w1" by (blast intro: fs_only_adds_no copyDirectory_fs_only)
  show ?thesis
  proof (cases e)
    case (Some err)
    with assms(2) c a1 show ?thesis by (simp add: RunBackup_deferred_def Let_def)
  next
    case None
    let ?w2 = "logf (CopiedTo (SourceFolder (config bm)) ?d) w1"
    have a2: "adds_no P w ?w2" using a1 assms(1) by (simp add: adds_no_logf plainD)
    show ?thesis
    proof (cases "DryRun (config bm)")
      case True
      with assms c None a2 show ?thesis
        by (auto simp: RunBackup_deferred_def Let_def intro!: adds_no_logf dest: plainE)
    next
      case False
      obtain rs w3 where u: "upload_tasks ctx bm ?d n ?w2 = (rs, w3)" by (cases "upload_tasks ctx bm ?d n ?w2")
      obtain k w4 where r: "receive (Verbose (config bm)) rs 0 w3 = (k, w4)"
        by (cases "receive (Verbose (config bm)) rs 0 w3")
      have a4: "adds_no P w w4"
        using a2 upload_tasks_adds_no[OF assms(1) u] receive_adds_no[OF assms(1) r]
        by (blast intro: adds_no_trans)
      show ?thesis
        using assms(2) c None False u r a4
        by (cases "k = 0") (auto simp: RunBackup_deferred_def Let_def)
    qed
  qed
qed

lemma RunBackup_adds:
  assumes "plain P" and "RunBackup ctx bm w = (res, w')"
  shows "\<exists>ls. wlog w' = wlog w @ StartingBackup (SourceFolder (config bm)) # ls \<and>
              (\<forall>l \<in> set ls. P l \<longrightarrow> (\<exists>k. l = Completed k 2))"
proof -
  let ?w0 = "logf (StartingBackup (SourceFolder (config bm))) w"
  let ?p = "tempDir bm @ [''backup_'' @ now w]"
  obtain e1 w1 where mk: "MkdirAll ?p 493 ?w0 = (e1, w1)" by (cases "MkdirAll ?p 493 ?w0")
  then have l1: "wlog w1 = wlog ?w0" by (auto dest!: fs_calls_fs_only simp: fs_only_def)
  show ?thesis
  proof (cases e1)
    case (Some err)
    with assms(2) mk l1 show ?thesis by (simp add: RunBackup_def Let_def)
  next
    case None
    obtain r2 w2 where d: "RunBackup_deferred ctx bm (''backup_'' @ now w) ?p w1 = (r2, w2)"
      by (cases "RunBackup_deferred ctx bm (''backup_'' @ now w) ?p w1")
    have w': "w' = cleanup ?p w2"
      using assms(2) mk None d by (simp add: RunBackup_def Let_def)
    from cleanup_adds_no[OF assms(1), of w2 ?p] obtain ls3 where
      l3: "wlog w' = wlog w2 @ ls3" "\<forall>l \<in> set ls3. \<not> P l"
      unfolding w' adds_no_def by blast
    have "\<exists>ls2. wlog w2 = wlog w1 @ ls2 \<and> (\<forall>l \<in> set ls2. P l \<longrightarrow> (\<exists>k. l = Completed k 2))"
      using RunBackup_deferred_adds[OF assms(1) d] unfolding adds_no_def
    proof (elim disjE exE conjE)
      fix ls assume "wlog w2 = wlog w1 @ ls" "\<forall>l\<in>set ls. \<not> P l"
      then show ?thesis by blast
    next
      fix w1a k ls assume "w2 = logf (Completed k 2) w1a" "wlog w1a = wlog w1 @ ls" "\<forall>l\<in>set ls. \<not> P l"
      then have "wlog w2 = wlog w1 @ (ls @ [Completed k 2])"
        "\<forall>l \<in> set (ls @ [Completed k 2]). P l \<longrightarrow> (\<exists>k. l = Completed k 2)"
        by auto
      then show ?thesis by blast
    qed
    then obtain ls2 where l2: "wlog w2 = wlog w1 @ ls2" "\<forall>l \<in> set ls2. P l \<longrightarrow> (\<exists>k. l = Completed k 2)"
      by blast
    show ?thesis
      using l1 l2 l3 by auto
  qed
qed

subsection \<open>The completion report\<close>

lemma plain_is_report: "plain is_report"
  unfolding plain_def is_report_def by (auto elim: report_of.elims)

lemma reported_after:
  assumes "adds_no is_report w w1" and "wlog w2 = wlog w1 @ [Completed k n]" and "adds_no is_report w2 w'"
  shows "reported w w' = [(k, n)]"
  using assms by (auto simp: adds_no_def reported_def map_filter_def is_report_def)

lemma successes_configured:
  assumes "upload_tasks ctx bm d n w = (rs, w')"
  shows "length (filter Success rs) \<le> configured bm"
  using assms
  by (auto simp: upload_tasks_def gdrive_task_def pcloud_task_def configured_def
           split: prod.splits option.splits)

text \<open>
  C3 (as amended). In a cycle that reaches the upload phase with \<open>K \<ge> 1\<close>
  successful outcomes, \<^verbatim>\<open>RunBackup\<close> returns nil and writes exactly one completion
  report, which gives \<open>K\<close> out of \<open>2\<close>: the denominator is the fixed number of
  backend slots, whatever the number of configured backends, which bounds \<open>K\<close>.
\<close>

theorem RunBackup_reports_count:
  assumes "staged_for_upload bm w \<noteq> None"
      and "K = length (filter Success (outcomes ctx bm w))"
      and "1 \<le> K"
  shows "fst (RunBackup ctx bm w) = None
       \<and> reported w (snd (RunBackup ctx bm w)) = [(K, 2)]
       \<and> K \<le> configured bm"
proof -
  note pl = plain_is_report
  from assms(1) obtain destPath backupName w2 where s: "staged_for_upload bm w = Some (destPath, backupName, w2)"
    by (cases "staged_for_upload bm w") auto
  obtain results w3 where u: "upload_tasks ctx bm destPath backupName w2 = (results, w3)"
    by (cases "upload_tasks ctx bm destPath backupName w2") auto
  have o: "outcomes ctx bm w = results"
    by (simp add: outcomes_def s u)
  from s obtain w1 w1' where
    mk: "MkdirAll (tempDir bm @ [''backup_'' @ now w]) 493 (logf (StartingBackup (SourceFolder (config bm))) w) = (None, w1)"
    and cp: "copyDirectory destPath w1 = (None, w1')"
    and dry: "\<not> DryRun (config bm)"
    and nm: "backupName = ''backup_'' @ now w"
    and dp: "destPath = tempDir bm @ [backupName, Base (SourceFolder (config bm))]"
    and w2: "w2 = logf (CopiedTo (SourceFolder (config bm)) destPath) w1'"
    by (rule staged_for_uploadD)
  obtain k w4 where rc: "receive (Verbose (config bm)) results 0 w3 = (k, w4)"
    by (cases "receive (Verbose (config bm)) results 0 w3")
  have k: "k = K"
    using receive_count[of "Verbose (config bm)" results 0 w3] rc assms(2) o by simp
  have "adds_no is_report w (logf (StartingBackup (SourceFolder (config bm))) w)"
    by (simp add: adds_no_logf is_report_def)
  then have q1: "adds_no is_report w w1"
    using mk by (blast intro: adds_no_trans fs_only_adds_no fs_calls_fs_only)
  have "adds_no is_report w1 w1'"
    using cp by (blast intro: fs_only_adds_no copyDirectory_fs_only)
  then have q2: "adds_no is_report w1 w2"
    unfolding w2 by (simp add: adds_no_logf is_report_def)
  have q3: "adds_no is_report w2 w4"
    using u rc by (blast intro: adds_no_trans upload_tasks_adds_no[OF pl] receive_adds_no[OF pl])
  have q: "adds_no is_report w w4"
    using q1 q2 q3 by (blast intro: adds_no_trans)
  have d: "RunBackup_deferred ctx bm backupName (tempDir bm @ [backupName]) w1 = (None, logf (Completed K 2) w4)"
    using cp dry u rc k assms(3)
    by (simp add: RunBackup_deferred_def Let_def dp[symmetric] w2[symmetric])
  have r: "RunBackup ctx bm w = (None, cleanup (tempDir bm @ [backupName]) (logf (Completed K 2) w4))"
    using mk d by (simp add: RunBackup_def Let_def nm)
  have "reported w (cleanup (tempDir bm @ [backupName]) (logf (Completed K 2) w4)) = [(K, 2)]"
    by (rule reported_after[OF q _ cleanup_adds_no[OF pl]]) simp
  moreover have "K \<le> configured bm"
    using successes_configured[OF u] assms(2) o by simp
  ultimately show ?thesis
    by (simp add: r)
qed

theorem RunBackup_reports_count_witness:
  "staged_for_upload scenario_bm scenario_world \<noteq> None
   \<and> 1 \<le> length (filter Success (outcomes None scenario_bm scenario_world))
   \<and> fst (RunBackup None scenario_bm scenario_world) = None
   \<and> reported scenario_world (snd (RunBackup None scenario_bm scenario_world)) = [(2, 2)]"
proof -
  have a: "staged_for_upload scenario_bm scenario_world \<noteq> None"
    by code_simp
  have b: "length (filter Success (outcomes None scenario_bm scenario_world)) = 2"
    by code_simp
  from RunBackup_reports_count[OF a refl, of None] b a show ?thesis
    by simp
qed

text \<open>
  C3 as stated fails: with pCloud as the only configured backend and its
  upload successful, the report reads \<open>1/2\<close>, not \<open>1/1\<close>.
\<close>

theorem reported_denominator_counterexample:
  "configured (fst pcloud_only) = 1
   \<and> length (filter Success (outcomes None (fst pcloud_only) (snd pcloud_only))) = 1
   \<and> fst (RunBackup None (fst pcloud_only) (snd pcloud_only)) = None
   \<and> reported (snd pcloud_only) (snd (RunBackup None (fst pcloud_only) (snd pcloud_only))) = [(1, 2)]
   \<and> reported (snd pcloud_only) (snd (RunBackup None (fst pcloud_only) (snd pcloud_only)))
        \<noteq> [(1, configured (fst pcloud_only))]"
  by code_simp

subsection \<open>Cleanup of the staging directory\<close>

lemma map_of_upd [simp]: "map_of es c = Some y \<Longrightarrow> map_of (upd c x es) c = Some x"
  by (induction es) auto

lemma map_of_filter_neq [simp]: "map_of (filter (\<lambda>e. fst e \<noteq> c) es) c = None"
  by (induction es) auto

lemma get_del: "p \<noteq> [] \<Longrightarrow> get (del p d) p = None"
  by (induction p d rule: del.induct) (auto split: option.splits)

lemma task_fields:
  "gdrive_task ctx bm d n w = (res, w') \<Longrightarrow> fails w' = fails w \<and> trace w' = trace w \<and> disk w' = disk w"
  "pcloud_task ctx bm d n w = (res, w') \<Longrightarrow> fails w' = fails w \<and> trace w' = trace w \<and> disk w' = disk w"
  by (auto simp: gdrive_task_def pcloud_task_def split: option.splits prod.splits)

lemma upload_tasks_fields:
  "upload_tasks ctx bm d n w = (rs, w') \<Longrightarrow> fails w' = fails w \<and> trace w' = trace w \<and> disk w' = disk w"
  by (auto simp: upload_tasks_def split: prod.splits dest!: task_fields)

lemma receive_fields:
  "receive v rs k w = (k', w') \<Longrightarrow> fails w' = fails w \<and> trace w' = trace w \<and> disk w' = disk w"
  by (induction rs arbitrary: k w) (auto split: if_splits)

lemma RunBackup_deferred_fails:
  assumes "RunBackup_deferred ctx bm n p w = (res, w')"
  shows "fails w' = fails w"
proof -
  obtain e w1 where c: "copyDirectory (p @ [Base (SourceFolder (config bm))]) w = (e, w1)"
    by (cases "copyDirectory (p @ [Base (SourceFolder (config bm))]) w")
  then have f: "fails w1 = fails w"
    by (auto dest!: copyDirectory_fs_only simp: fs_only_def)
  show ?thesis
    using assms c f
    by (auto simp: RunBackup_deferred_def Let_def split: option.splits prod.splits if_splits
             dest!: upload_tasks_fields receive_fields)
qed

lemma cleanup_effect:
  "trace (cleanup p w) = trace w @ [SysRemoveAll p]"
  "fails w (length (trace w)) \<Longrightarrow> wlog (cleanup p w) = wlog w @ [CleanupWarning p (SysErr EIO)]"
  "\<not> fails w (length (trace w)) \<Longrightarrow> disk (cleanup p w) = del p (disk w) \<and> wlog (cleanup p w) = wlog w"
  by (cases "fails w (length (trace w))"; simp add: cleanup_def RemoveAll_def on_disk_def sys_def)+

text \<open>
  C8. Once the staging directory of a cycle has been created, whatever way
  \<^verbatim>\<open>RunBackup\<close> returns (cloning failed, dry run, uploads failed or cancelled,
  success), its last system call is the removal of that directory; when the
  removal fails a warning is the last line of the log, otherwise the directory
  is gone; and the value returned is the one that the part of \<^verbatim>\<open>RunBackup\<close>
  before the removal has computed.
\<close>

theorem cleanup_on_every_path:
  assumes "staging_created bm w"
      and "backupPath = tempDir bm @ [''backup_'' @ now w]"
      and "RunBackup ctx bm w = (res, w')"
  shows "trace w' \<noteq> [] \<and> last (trace w') = SysRemoveAll backupPath
       \<and> (if fails w (length (trace w') - 1)
          then last (wlog w') = CleanupWarning backupPath (SysErr EIO)
          else get (disk w') backupPath = None)
       \<and> res = fst (RunBackup_deferred ctx bm (''backup_'' @ now w) backupPath
                      (snd (MkdirAll backupPath 493 (logf (StartingBackup (SourceFolder (config bm))) w))))"
proof -
  let ?w0 = "logf (StartingBackup (SourceFolder (config bm))) w"
  obtain e1 w1 where mk: "MkdirAll backupPath 493 ?w0 = (e1, w1)"
    by (cases "MkdirAll backupPath 493 ?w0")
  with assms(1,2) have e1: "e1 = None"
    by (simp add: staging_created_def)
  obtain r2 w2 where d: "RunBackup_deferred ctx bm (''backup_'' @ now w) backupPath w1 = (r2, w2)"
    by (cases "RunBackup_deferred ctx bm (''backup_'' @ now w) backupPath w1")
  have run: "res = r2" "w' = cleanup backupPath w2"
    using assms(2,3) mk e1 d by (simp_all add: RunBackup_def Let_def)
  have f: "fails w2 = fails w"
    using RunBackup_deferred_fails[OF d] fs_calls_fs_only(1)[OF mk] by (simp add: fs_only_def)
  have ne: "backupPath \<noteq> []"
    using assms(2) by simp
  show ?thesis
    using run f mk d cleanup_effect[where p=backupPath and w=w2] get_del[OF ne]
    by auto
qed

theorem cleanup_on_every_path_witness:
  "staging_created scenario_bm failing_world
   \<and> fst (RunBackup None scenario_bm failing_world)
       = Some (Wrapped ''failed to copy source directory'' (SysErr ENOENT))
   \<and> last (trace (snd (RunBackup None scenario_bm failing_world)))
       = SysRemoveAll [''datavault_backups'', ''backup_2024-01-15_14-30-25'']
   \<and> last (wlog (snd (RunBackup None scenario_bm failing_world)))
       = CleanupWarning [''datavault_backups'', ''backup_2024-01-15_14-30-25''] (SysErr EIO)"
proof -
  have a: "staging_created scenario_bm failing_world"
    by code_simp
  have b: "tempDir scenario_bm @ [''backup_'' @ now failing_world]
             = [''datavault_backups'', ''backup_2024-01-15_14-30-25'']"
    by (simp add: scenario_bm_def failing_world_def scenario_world_def)
  have c: "fst (RunBackup None scenario_bm failing_world)
             = Some (Wrapped ''failed to copy source directory'' (SysErr ENOENT))"
    by code_simp
  have d: "length (trace (snd (RunBackup None scenario_bm failing_world))) = 3"
    by code_simp
  have e: "fails failing_world (3 - 1)"
    by (simp add: failing_world_def)
  from cleanup_on_every_path[OF a b[symmetric] prod.collapse[symmetric]] a c d e show ?thesis
    by simp
qed

subsection \<open>The scheduler\<close>

lemma plain_is_start: "plain is_start"
  unfolding plain_def by (auto elim: is_start.elims)

lemma plain_failure: "plain (\<lambda>l. failure_of l \<noteq> None)"
  unfolding plain_def by (auto elim: failure_of.elims)

lemma RunBackup_one_cycle:
  assumes "RunBackup ctx bm w = (res, w')"
  shows "\<exists>ls. wlog w' = wlog w @ ls \<and> length (filter is_start ls) = 1
             \<and> List.map_filter failure_of ls = []"
proof -
  from RunBackup_adds[OF plain_is_start assms] obtain ls where
    a: "wlog w' = wlog w @ StartingBackup (SourceFolder (config bm)) # ls"
       "\<forall>l \<in> set ls. is_start l \<longrightarrow> (\<exists>k. l = Completed k 2)"
    by blast
  from RunBackup_adds[OF plain_failure assms] obtain ls' where
    b: "wlog w' = wlog w @ StartingBackup (SourceFolder (config bm)) # ls'"
       "\<forall>l \<in> set ls'. failure_of l \<noteq> None \<longrightarrow> (\<exists>k. l = Completed k 2)"
    by blast
  from a b have same: "ls' = ls" by simp
  have "filter is_start ls = []"
    using a(2) by (auto simp: filter_empty_conv)
  moreover have "List.map_filter failure_of ls = []"
    using b(2) unfolding same by (auto simp: map_filter_def filter_empty_conv)
  ultimately show ?thesis
    using a(1) by (auto simp: map_filter_simps)
qed

lemma scheduler_loop_runs:
  assumes "scheduler_loop ctx evs bm w = (res, w')"
  shows "res = (if CtxDone \<in> set evs then Some Canceled else None)
       \<and> (\<exists>ls. wlog w' = wlog w @ ls
             \<and> length (filter is_start ls) = length (filter is_tick (takeWhile (\<lambda>e. e \<noteq> CtxDone) evs))
             \<and> List.map_filter failure_of ls = List.map_filter id (cycle_results ctx evs bm w))"
  using assms
proof (induction evs arbitrary: w)
  case Nil
  then show ?case by (simp add: map_filter_simps)
next
  case (Cons ev evs)
  show ?case
  proof (cases ev)
    case CtxDone
    with Cons.prems show ?thesis by (auto simp: map_filter_simps)
  next
    case (Tick t)
    obtain r w1 where run: "RunBackup ctx bm (w\<lparr>now := t\<rparr>) = (r, w1)"
      by (cases "RunBackup ctx bm (w\<lparr>now := t\<rparr>)")
    from RunBackup_one_cycle[OF run] obtain ls1 where
      l1: "wlog w1 = wlog w @ ls1" "length (filter is_start ls1) = 1" "List.map_filter failure_of ls1 = []"
      by auto
    let ?w2 = "case r of Some err \<Rightarrow> logf (ScheduledBackupFailed err) w1 | None \<Rightarrow> w1"
    have loop: "scheduler_loop ctx evs bm ?w2 = (res, w')"
      using Cons.prems run Tick by (cases r) simp_all
    from Cons.IH[OF loop] obtain ls2 where
      l2: "wlog w' = wlog ?w2 @ ls2"
          "length (filter is_start ls2) = length (filter is_tick (takeWhile (\<lambda>e. e \<noteq> CtxDone) evs))"
          "List.map_filter failure_of ls2 = List.map_filter id (cycle_results ctx evs bm ?w2)"
      and res: "res = (if CtxDone \<in> set evs then Some Canceled else None)"
      by blast
    show ?thesis
    proof (cases r)
      case None
      then show ?thesis
        using l1 l2 res run Tick by (auto simp: map_filter_def)
    next
      case (Some err)
      then show ?thesis
        using l1 l2 res run Tick by (auto simp: map_filter_def)
    qed
  qed
qed

text \<open>
  C9. \<^verbatim>\<open>main\<close> runs one cycle at once and then one cycle for every tick
  received before the context is done, whatever the cycles return; every
  failed cycle leaves its error in the log, in order; and the scheduler
  returns, with the cancellation error, exactly when the cancellation arrives:
  as long as only ticks arrive it is still running.
\<close>

theorem scheduler_cycles:
  assumes "0 < BackupInterval (config bm)"
      and "main_run ctx evs bm w = (res, w')"
  shows "res = (if CtxDone \<in> set evs then Some Canceled else None)
       \<and> length (filter is_start (new_lines w w')) = 1 + length (filter is_tick (takeWhile (\<lambda>e. e \<noteq> CtxDone) evs))
       \<and> List.map_filter failure_of (new_lines w w') = List.map_filter id (main_results ctx evs bm w)"
proof -
  obtain r w1 where run: "RunBackup ctx bm w = (r, w1)"
    by (cases "RunBackup ctx bm w")
  from RunBackup_one_cycle[OF run] obtain ls1 where
    l1: "wlog w1 = wlog w @ ls1" "length (filter is_start ls1) = 1" "List.map_filter failure_of ls1 = []"
    by auto
  let ?w2 = "case r of Some err \<Rightarrow> logf (InitialBackupFailed err) w1 | None \<Rightarrow> w1"
  let ?w3 = "logf (SchedulerStarting (BackupInterval (config bm))) ?w2"
  have loop: "scheduler_loop ctx evs bm ?w3 = (res, w')"
    using assms run by (cases r) (simp_all add: main_run_def StartScheduler_def Let_def)
  from scheduler_loop_runs[OF loop] obtain ls2 where
    l2: "wlog w' = wlog ?w3 @ ls2"
        "length (filter is_start ls2) = length (filter is_tick (takeWhile (\<lambda>e. e \<noteq> CtxDone) evs))"
        "List.map_filter failure_of ls2 = List.map_filter id (cycle_results ctx evs bm ?w3)"
    and res: "res = (if CtxDone \<in> set evs then Some Canceled else None)"
    by blast
  show ?thesis
  proof (cases r)
    case None
    then show ?thesis
      using l1 l2 res run by (auto simp: map_filter_def new_lines_def main_results_def)
  next
    case (Some err)
    then show ?thesis
      using l1 l2 res run by (auto simp: map_filter_def new_lines_def main_results_def)
  qed
qed

theorem scheduler_cycles_witness:
  "0 < BackupInterval (config scenario_bm)
   \<and> fst (main_run None [Tick ''2024-01-15_15-30-25'', Tick ''2024-01-15_16-30-25'', CtxDone]
             scenario_bm failing_world) = Some Canceled
   \<and> length (filter is_start (new_lines failing_world
        (snd (main_run None [Tick ''2024-01-15_15-30-25'', Tick ''2024-01-15_16-30-25'', CtxDone]
             scenario_bm failing_world)))) = 3"
proof -
  have a: "0 < BackupInterval (config scenario_bm)"
    by (simp add: scenario_bm_def scenario_config_def Hour_def)
  from scheduler_cycles[OF a prod.collapse[symmetric]] a show ?thesis
    by simp
qed

subsection \<open>Resolving the root folder\<close>

lemma find_filter_single:
  assumes "find P xs = None" and "P x"
  shows "find P (xs @ [x]) = Some x"
  using assms by (induction xs) (auto split: if_splits)

lemma find_append_Some: "find P xs = Some y \<Longrightarrow> find P (xs @ ys) = Some y"
  by (induction xs) (auto split: if_splits)

lemma g_ensureRootFolder_again:
  assumes "g_ensureRootFolder gdc r = (None, gdc1, r1)"
  shows "g_rootFolderID (fst (snd (g_ensureRootFolder gdc1 r1))) = g_rootFolderID gdc1
       \<and> objs (snd (snd (g_ensureRootFolder gdc1 r1))) = objs r1
       \<and> (answer r1 = Served \<longrightarrow> fst (g_ensureRootFolder gdc1 r1) = None)"
proof -
  let ?dv = "\<lambda>f. oname f = ''DataVault'' \<and> body f = None \<and> \<not> trashed f"
  from assms have sv: "service gdc" and a: "answer r = Served"
    by (auto simp: g_ensureRootFolder_def Files_List_DataVault_def split: if_splits reply.splits)
  show ?thesis
  proof (cases "filter ?dv (objs r)")
    case (Cons f fs)
    with assms sv a have 1: "gdc1 = gdc\<lparr>g_rootFolderID := oid f\<rparr>" "r1 = tick r"
      by (auto simp: g_ensureRootFolder_def Files_List_DataVault_def)
    show ?thesis
      using Cons sv unfolding 1
      by (cases "answer (tick r)")
         (simp_all add: g_ensureRootFolder_def Files_List_DataVault_def tick_def answer_def)
  next
    case Nil
    with assms sv a have b: "answer (tick r) = Served"
      by (auto simp: g_ensureRootFolder_def Files_List_DataVault_def Files_Create_def
               split: reply.splits)
    with assms sv a Nil have 1: "gdc1 = gdc\<lparr>g_rootFolderID := next_id r\<rparr>" "r1 = store 0 ''DataVault'' None (tick r)"
      by (auto simp: g_ensureRootFolder_def Files_List_DataVault_def Files_Create_def tick_def)
    show ?thesis
      using Nil sv unfolding 1
      by (cases "answer (store 0 ''DataVault'' None (tick r))")
         (simp_all add: g_ensureRootFolder_def Files_List_DataVault_def tick_def answer_def store_def)
  qed
qed

lemma p_ensureRootFolder_again:
  assumes "p_ensureRootFolder pc0 r = (None, pc1, r1)"
  shows "p_rootFolderID (fst (snd (p_ensureRootFolder pc1 r1))) = p_rootFolderID pc1
       \<and> objs (snd (snd (p_ensureRootFolder pc1 r1))) = objs r1
       \<and> (answer r1 = Served \<longrightarrow> fst (p_ensureRootFolder pc1 r1) = None)"
proof -
  let ?dv = "\<lambda>item. body item = None \<and> oname item = ''DataVault''"
  let ?top = "\<lambda>os. filter (\<lambda>f. parent f = 0) os"
  have nd [simp]: "\<And>q. \<not> ctx_done None q"
    by (simp add: ctx_done_def)
  from assms have a: "answer r = Served"
    by (auto simp: p_ensureRootFolder_def makeRequest_def split: if_splits reply.splits)
  show ?thesis
  proof (cases "find ?dv (?top (objs r))")
    case (Some item)
    with assms a have 1: "pc1 = pc0\<lparr>p_rootFolderID := oid item\<rparr>" "r1 = tick r"
      by (auto simp: p_ensureRootFolder_def makeRequest_def)
    show ?thesis
      using Some unfolding 1
      by (cases "answer (tick r)")
         (simp_all add: p_ensureRootFolder_def makeRequest_def tick_def answer_def)
  next
    case None
    with assms a have b: "answer (tick r) = Served"
      by (auto simp: p_ensureRootFolder_def makeRequest_def split: reply.splits)
    with assms a None have 1: "pc1 = pc0\<lparr>p_rootFolderID := next_id r\<rparr>" "r1 = store 0 ''DataVault'' None (tick r)"
      by (auto simp: p_ensureRootFolder_def makeRequest_def tick_def)
    have f: "find ?dv (?top (objs r) @ [\<lparr>oid = next_id r, parent = 0, oname = ''DataVault'', body = None, trashed = False\<rparr>])
              = Some \<lparr>oid = next_id r, parent = 0, oname = ''DataVault'', body = None, trashed = False\<rparr>"
      using None by (intro find_filter_single) simp_all
    show ?thesis
      using f unfolding 1
      by (cases "answer (store 0 ''DataVault'' None (tick r))")
         (simp_all add: p_ensureRootFolder_def makeRequest_def tick_def answer_def store_def)
  qed
qed

text \<open>
  C4. When \<^verbatim>\<open>ensureRootFolder\<close> has succeeded, running it again on the state it
  left gives the same \<^verbatim>\<open>rootFolderID\<close> and creates no object at all, for both
  adapters; the second run succeeds whenever the provider serves its listing
  request.
\<close>

theorem ensureRootFolder_idempotent:
  "(g_ensureRootFolder gdc r = (None, gdc1, r1) \<longrightarrow>
      g_rootFolderID (fst (snd (g_ensureRootFolder gdc1 r1))) = g_rootFolderID gdc1
    \<and> objs (snd (snd (g_ensureRootFolder gdc1 r1))) = objs r1
    \<and> (answer r1 = Served \<longrightarrow> fst (g_ensureRootFolder gdc1 r1) = None))
 \<and> (p_ensureRootFolder pc0 q = (None, pc1, q1) \<longrightarrow>
      p_rootFolderID (fst (snd (p_ensureRootFolder pc1 q1))) = p_rootFolderID pc1
    \<and> objs (snd (snd (p_ensureRootFolder pc1 q1))) = objs q1
    \<and> (answer q1 = Served \<longrightarrow> fst (p_ensureRootFolder pc1 q1) = None))"
  using g_ensureRootFolder_again p_ensureRootFolder_again by blast

theorem ensureRootFolder_idempotent_witness:
  "fst gdrive_resolved = None
   \<and> g_rootFolderID (fst (snd (g_ensureRootFolder (fst (snd gdrive_resolved)) (snd (snd gdrive_resolved)))))
        = g_rootFolderID (fst (snd gdrive_resolved))
   \<and> objs (snd (snd (g_ensureRootFolder (fst (snd gdrive_resolved)) (snd (snd gdrive_resolved)))))
        = objs (snd (snd gdrive_resolved))
   \<and> fst pcloud_resolved = None
   \<and> p_rootFolderID (fst (snd (p_ensureRootFolder (fst (snd pcloud_resolved)) (snd (snd pcloud_resolved)))))
        = p_rootFolderID (fst (snd pcloud_resolved))
   \<and> objs (snd (snd (p_ensureRootFolder (fst (snd pcloud_resolved)) (snd (snd pcloud_resolved)))))
        = objs (snd (snd pcloud_resolved))"
proof -
  have a: "fst gdrive_resolved = None" "fst pcloud_resolved = None"
    by code_simp+
  then have b: "g_ensureRootFolder fresh_gdrive healthy = (None, fst (snd gdrive_resolved), snd (snd gdrive_resolved))"
    "p_ensureRootFolder fresh_pcloud healthy = (None, fst (snd pcloud_resolved), snd (snd pcloud_resolved))"
    by (metis gdrive_resolved_def prod.collapse, metis pcloud_resolved_def prod.collapse)
  from ensureRootFolder_idempotent[of fresh_gdrive healthy "fst (snd gdrive_resolved)" "snd (snd gdrive_resolved)"
         fresh_pcloud healthy "fst (snd pcloud_resolved)" "snd (snd pcloud_resolved)"] a b
  show ?thesis by blast
qed

subsection \<open>The recursive mirror\<close>

lemma grows_refl [simp]: "grows r r"
  by (simp add: grows_def)

lemma grows_trans: "grows r r1 \<Longrightarrow> grows r1 r2 \<Longrightarrow> grows r r2"
  by (auto simp: grows_def)

lemma grows_tick [simp]: "grows r (tick r)"
  by (simp add: grows_def tick_def)

lemma grows_store [simp]: "grows r (store p n b r)"
  by (simp add: grows_def store_def)

lemma Files_Create_grows: "Files_Create n ps b r = (x, r') \<Longrightarrow> grows r r'"
  by (auto simp: Files_Create_def split: reply.splits)

lemma Files_Create_Context_grows: "Files_Create_Context ctx n ps b r = (x, r') \<Longrightarrow> grows r r'"
  by (auto simp: Files_Create_Context_def split: if_splits dest: Files_Create_grows)

lemma makeRequest_grows: "makeRequest ctx ep r = (x, r') \<Longrightarrow> grows r r'"
  by (auto simp: makeRequest_def split: reply.splits endpoint.splits if_splits)

lemma Open_grows: "Open f r = (x, r') \<Longrightarrow> grows r r'"
  by (auto simp: Open_def split: reply.splits node.splits)

lemma g_uploadFile_grows: "g_uploadFile ctx f n p r = (e, r') \<Longrightarrow> grows r r'"
  by (auto simp: g_uploadFile_def split: prod.splits sum.splits
           dest!: Open_grows Files_Create_Context_grows intro: grows_trans)

lemma p_uploadFile_grows: "p_uploadFile ctx f n p r = (e, r') \<Longrightarrow> grows r r'"
  by (auto simp: p_uploadFile_def split: prod.splits sum.splits reply.splits if_splits
           dest!: Open_grows intro: grows_trans grows_tick grows_store)

lemma g_walk_grows:
  "g_uploadDirectoryRecursive ctx t p rel r = (e, r') \<Longrightarrow> grows r r'"
  "g_entries ctx es p rel r = (e, r') \<Longrightarrow> grows r r'"
proof (induction ctx t p rel r and ctx es p rel r arbitrary: e r' and e r'
       rule: g_uploadDirectoryRecursive_g_entries.induct)
  case (1 ctx parentID relativePath r)
  then show ?case by auto
next
  case (2 ctx b m parentID relativePath r)
  then show ?case by auto
next
  case (3 ctx m es parentID relativePath r)
  then show ?case
    by (cases "answer r") (auto intro: grows_trans[OF grows_tick])
next
  case (4 ctx parentID relativePath r)
  then show ?case by simp
next
  case (5 ctx name entry rest parentID relativePath r)
  show ?case
  proof (cases "ctx_done ctx r")
    case True
    with "5.prems" show ?thesis by simp
  next
    case nd: False
    show ?thesis
    proof (cases "IsDir entry")
      case True
      obtain x r1 where c: "Files_Create name [parentID] None r = (x, r1)"
        by (cases "Files_Create name [parentID] None r")
      note g1 = Files_Create_grows[OF c]
      show ?thesis
      proof (cases x)
        case (Inl err)
        with "5.prems" nd True c have "g_entries ctx rest parentID relativePath r1 = (e, r')" by simp
        from "5.IH"(1)[OF nd True c[symmetric] Inl this] g1 show ?thesis by (blast intro: grows_trans)
      next
        case (Inr fid)
        obtain e2 r2 where u: "g_uploadDirectoryRecursive ctx (Some entry) fid (relativePath @ [name]) r1 = (e2, r2)"
          by (cases "g_uploadDirectoryRecursive ctx (Some entry) fid (relativePath @ [name]) r1")
        note g2 = "5.IH"(2)[OF nd True c[symmetric] Inr u]
        from "5.prems" nd True c Inr u have "g_entries ctx rest parentID relativePath r2 = (e, r')" by simp
        from "5.IH"(3)[OF nd True c[symmetric] Inr u[symmetric] this] g1 g2 show ?thesis
          by (blast intro: grows_trans)
      qed
    next
      case False
      obtain e1 r1 where u: "g_uploadFile ctx entry name parentID r = (e1, r1)"
        by (cases "g_uploadFile ctx entry name parentID r")
      note g1 = g_uploadFile_grows[OF u]
      from "5.prems" nd False u have "g_entries ctx rest parentID relativePath r1 = (e, r')" by simp
      from "5.IH"(4)[OF nd False u[symmetric] this] g1 show ?thesis by (blast intro: grows_trans)
    qed
  qed
qed

lemma p_uploadFile_state: "snd (p_uploadFile ctx f n p r) = snd (g_uploadFile ctx f n p r)"
  by (cases f; cases "answer r"; cases "ctx_done ctx (tick r)"; cases "answer (tick r)")
     (simp_all add: p_uploadFile_def g_uploadFile_def Open_def Files_Create_Context_def Files_Create_def)

lemma request_under_done_context:
  assumes "ctx_done ctx r"
  shows "makeRequest ctx ep r = (Inl (Wrapped ''request failed'' Canceled), r)"
    and "Files_Create_Context ctx nm ps media r = (Inl Canceled, r)"
    and "p_UploadFolder ctx pc0 t name r
           = (Some (Wrapped ''failed to create backup folder'' (Wrapped ''request failed'' Canceled)), r)"
  using assms by (simp_all add: makeRequest_def Files_Create_Context_def p_UploadFolder_def)

lemma p_walk_eq_g:
  "p_uploadDirectoryRecursive ctx t p rel r = g_uploadDirectoryRecursive ctx t p rel r"
  "p_entries ctx es p rel r = g_entries ctx es p rel r"
proof (induction ctx t p rel r and ctx es p rel r rule: g_uploadDirectoryRecursive_g_entries.induct)
  case (1 ctx parentID relativePath r)
  then show ?case by simp
next
  case (2 ctx b m parentID relativePath r)
  then show ?case by simp
next
  case (3 ctx m es parentID relativePath r)
  then show ?case by (cases "answer r") simp_all
next
  case (4 ctx parentID relativePath r)
  then show ?case by simp
next
  case (5 ctx name entry rest parentID relativePath r)
  show ?case
  proof (cases "ctx_done ctx r")
    case True
    then show ?thesis by simp
  next
    case nd: False
    show ?thesis
    proof (cases "IsDir entry")
      case True
      show ?thesis
      proof (cases "answer r = Served")
        case sv: True
        have c: "Files_Create name [parentID] None r = (Inr (next_id r), store parentID name None r)"
          using sv by (simp add: Files_Create_def)
        obtain e2 r2 where u: "g_uploadDirectoryRecursive ctx (Some entry) (next_id r) (relativePath @ [name])
                                 (store parentID name None r) = (e2, r2)"
          by (cases "g_uploadDirectoryRecursive ctx (Some entry) (next_id r) (relativePath @ [name])
                                 (store parentID name None r)")
        have "p_uploadDirectoryRecursive ctx (Some entry) (next_id r) (relativePath @ [name])
                                 (store parentID name None r) = (e2, r2)"
          using "5.IH"(2)[OF nd True c[symmetric] refl] u by simp
        moreover have "p_entries ctx rest parentID relativePath r2 = g_entries ctx rest parentID relativePath r2"
          using "5.IH"(3)[OF nd True c[symmetric] refl u[symmetric]] .
        ultimately show ?thesis
          using nd True sv c u by (simp add: makeRequest_def)
      next
        case nsv: False
        have c: "Files_Create name [parentID] None r = (Inl Transport, tick r)"
          using nsv by (cases "answer r") (simp_all add: Files_Create_def)
        have "p_entries ctx rest parentID relativePath (tick r) = g_entries ctx rest parentID relativePath (tick r)"
          using "5.IH"(1)[OF nd True c[symmetric] refl] .
        then show ?thesis
          using nd True nsv c by (cases "answer r") (simp_all add: makeRequest_def)
      qed
    next
      case False
      obtain e1 r1 where u: "g_uploadFile ctx entry name parentID r = (e1, r1)"
        by (cases "g_uploadFile ctx entry name parentID r")
      obtain e1' where u': "p_uploadFile ctx entry name parentID r = (e1', r1)"
        using p_uploadFile_state[of ctx entry name parentID r] u
        by (cases "p_uploadFile ctx entry name parentID r") simp
      show ?thesis
        using "5.IH"(4)[OF nd False u[symmetric]] nd False u u' by simp
    qed
  qed
qed

lemma g_entries_append:
  "g_entries ctx (es1 @ es2) p rel r =
     (case g_entries ctx es1 p rel r of
        (None, r1) \<Rightarrow> g_entries ctx es2 p rel r1
      | (Some e, r1) \<Rightarrow> (Some e, r1))"
proof (induction es1 arbitrary: r)
  case Nil
  then show ?case by simp
next
  case (Cons x es1)
  obtain name entry where x: "x = (name, entry)" by (cases x)
  show ?case
  proof (cases "ctx_done ctx r")
    case True
    then show ?thesis by (simp add: x)
  next
    case nd: False
    show ?thesis
    proof (cases "IsDir entry")
      case True
      obtain y r1 where c: "Files_Create name [p] None r = (y, r1)"
        by (cases "Files_Create name [p] None r")
      show ?thesis
      proof (cases y)
        case (Inl err)
        then show ?thesis using nd True c Cons[of r1] by (simp add: x)
      next
        case (Inr fid)
        obtain e2 r2 where u: "g_uploadDirectoryRecursive ctx (Some entry) fid (rel @ [name]) r1 = (e2, r2)"
          by (cases "g_uploadDirectoryRecursive ctx (Some entry) fid (rel @ [name]) r1")
        show ?thesis using nd True c Inr u Cons[of r2] by (simp add: x)
      qed
    next
      case False
      obtain e1 r1 where u: "g_uploadFile ctx entry name p r = (e1, r1)"
        by (cases "g_uploadFile ctx entry name p r")
      show ?thesis using nd False u Cons[of r1] by (simp add: x)
    qed
  qed
qed

lemma g_entries_error:
  "g_entries ctx es p rel r = (Some e, r') \<Longrightarrow> e = Canceled \<and> ctx_done ctx r'"
proof (induction es arbitrary: r)
  case Nil
  then show ?case by simp
next
  case (Cons x es)
  obtain name entry where x: "x = (name, entry)" by (cases x)
  show ?case
  proof (cases "ctx_done ctx r")
    case True
    then show ?thesis using Cons.prems by (simp add: x)
  next
    case nd: False
    show ?thesis
    proof (cases "IsDir entry")
      case True
      obtain y r1 where c: "Files_Create name [p] None r = (y, r1)"
        by (cases "Files_Create name [p] None r")
      show ?thesis
      proof (cases y)
        case (Inl err)
        then show ?thesis using nd True c Cons.prems Cons.IH[of r1] by (simp add: x)
      next
        case (Inr fid)
        obtain e2 r2 where u: "g_uploadDirectoryRecursive ctx (Some entry) fid (rel @ [name]) r1 = (e2, r2)"
          by (cases "g_uploadDirectoryRecursive ctx (Some entry) fid (rel @ [name]) r1")
        show ?thesis using nd True c Inr u Cons.prems Cons.IH[of r2] by (simp add: x)
      qed
    next
      case False
      obtain e1 r1 where u: "g_uploadFile ctx entry name p r = (e1, r1)"
        by (cases "g_uploadFile ctx entry name p r")
      show ?thesis using nd False u Cons.prems Cons.IH[of r1] by (simp add: x)
    qed
  qed
qed

lemma g_entries_uncancelled: "fst (g_entries None es p rel r) = None"
proof (cases "g_entries None es p rel r")
  case (Pair e r')
  then show ?thesis
    using g_entries_error[of None es p rel r _ r'] by (cases e) (auto simp: ctx_done_def)
qed

subsection \<open>The result of an upload\<close>

lemma listing_served:
  assumes "g_uploadDirectoryRecursive ctx t p rel r = (None, r')"
  shows "(\<exists>m es. t = Some (Dir m es)) \<and> answer r = Served"
proof (cases t)
  case None
  with assms show ?thesis by simp
next
  case (Some n)
  show ?thesis
  proof (cases n)
    case (File b m)
    with assms Some show ?thesis by simp
  next
    case (Dir m es)
    with assms Some show ?thesis by (cases "answer r") simp_all
  qed
qed

lemma g_UploadFolder_success:
  assumes "g_UploadFolder ctx gdc t name r = (None, r')"
  shows "service gdc \<and> answer r = Served \<and> (\<exists>m es. t = Some (Dir m es))
       \<and> replies r (Suc (clock r)) = Served
       \<and> (\<exists>os. objs r' = objs r @ \<lparr>oid = next_id r, parent = g_rootFolderID gdc, oname = name,
                                        body = None, trashed = False\<rparr> # os)"
proof -
  from assms have sv: "service gdc" and a: "answer r = Served"
    by (auto simp: g_UploadFolder_def Files_Create_def split: if_splits reply.splits)
  let ?r1 = "store (g_rootFolderID gdc) name None r"
  from assms sv a have w: "g_uploadDirectoryRecursive ctx t (next_id r) [] ?r1 = (None, r')"
    by (simp add: g_UploadFolder_def Files_Create_def)
  from listing_served[OF w] have d: "\<exists>m es. t = Some (Dir m es)"
    and l: "replies r (Suc (clock r)) = Served"
    by (simp_all add: answer_def store_def)
  from g_walk_grows(1)[OF w] obtain os where "objs r' = objs ?r1 @ os"
    by (auto simp: grows_def)
  then have "objs r' = objs r @ \<lparr>oid = next_id r, parent = g_rootFolderID gdc, oname = name,
                                        body = None, trashed = False\<rparr> # os"
    by (simp add: store_def)
  with sv a d l show ?thesis by blast
qed

lemma p_UploadFolder_success:
  assumes "p_UploadFolder ctx pc0 t name r = (None, r')"
  shows "\<not> ctx_done ctx r \<and> answer r = Served \<and> (\<exists>m es. t = Some (Dir m es))
       \<and> replies r (Suc (clock r)) = Served
       \<and> (\<exists>os. objs r' = objs r @ \<lparr>oid = next_id r, parent = p_rootFolderID pc0, oname = name,
                                        body = None, trashed = False\<rparr> # os)"
proof -
  from assms have nd: "\<not> ctx_done ctx r"
    by (cases "ctx_done ctx r") (auto simp: p_UploadFolder_def makeRequest_def)
  with assms have a: "answer r = Served"
    by (cases "answer r") (auto simp: p_UploadFolder_def makeRequest_def)
  let ?r1 = "store (p_rootFolderID pc0) name None r"
  from assms a nd have w: "g_uploadDirectoryRecursive ctx t (next_id r) [] ?r1 = (None, r')"
    by (simp add: p_UploadFolder_def makeRequest_def p_walk_eq_g)
  from listing_served[OF w] have d: "\<exists>m es. t = Some (Dir m es)"
    and l: "replies r (Suc (clock r)) = Served"
    by (simp_all add: answer_def store_def)
  from g_walk_grows(1)[OF w] obtain os where "objs r' = objs ?r1 @ os"
    by (auto simp: grows_def)
  then have "objs r' = objs r @ \<lparr>oid = next_id r, parent = p_rootFolderID pc0, oname = name,
                                        body = None, trashed = False\<rparr> # os"
    by (simp add: store_def)
  with nd a d l show ?thesis by blast
qed

lemma g_UploadFolder_best_effort:
  assumes "service gdc" and "replies r (clock r) = Served" and "replies r (Suc (clock r)) = Served"
  shows "fst (g_UploadFolder None gdc (Some (Dir m es)) name r) = None"
  using assms g_entries_uncancelled
  by (simp add: g_UploadFolder_def Files_Create_def answer_def store_def tick_def)

lemma p_UploadFolder_best_effort:
  assumes "replies r (clock r) = Served" and "replies r (Suc (clock r)) = Served"
  shows "fst (p_UploadFolder None pc0 (Some (Dir m es)) name r) = None"
  using assms g_entries_uncancelled
  by (simp add: p_UploadFolder_def makeRequest_def ctx_done_def answer_def store_def tick_def p_walk_eq_g)

text \<open>
  C5 (as amended). \<^verbatim>\<open>UploadFolder\<close> returns nil only if the run's container was
  created under the adapter's root folder, a directory lies at the local path
  and its listing was served (for Google Drive also: only if the service
  handle is set; for pCloud also: only if the context was not done when the
  container was requested); and with a context that is never cancelled it
  returns nil whenever the container request and the listing of the staged
  directory are served, whatever happens to the entries below.
\<close>

theorem UploadFolder_success_needs_container:
  "(g_UploadFolder ctx gdc t name r = (None, r') \<longrightarrow>
      service gdc \<and> answer r = Served \<and> (\<exists>m es. t = Some (Dir m es))
    \<and> replies r (Suc (clock r)) = Served
    \<and> (\<exists>os. objs r' = objs r @ \<lparr>oid = next_id r, parent = g_rootFolderID gdc, oname = name,
                                     body = None, trashed = False\<rparr> # os))
 \<and> (p_UploadFolder ctx pc0 t name r = (None, r') \<longrightarrow>
      \<not> ctx_done ctx r \<and> answer r = Served \<and> (\<exists>m es. t = Some (Dir m es))
    \<and> replies r (Suc (clock r)) = Served
    \<and> (\<exists>os. objs r' = objs r @ \<lparr>oid = next_id r, parent = p_rootFolderID pc0, oname = name,
                                     body = None, trashed = False\<rparr> # os))
 \<and> (service gdc \<and> replies r (clock r) = Served \<and> replies r (Suc (clock r)) = Served \<longrightarrow>
      fst (g_UploadFolder None gdc (Some (Dir m es)) name r) = None
    \<and> fst (p_UploadFolder None pc0 (Some (Dir m es)) name r) = None)"
proof (rule conjI[OF _ conjI])
  show "g_UploadFolder ctx gdc t name r = (None, r') \<longrightarrow>
      service gdc \<and> answer r = Served \<and> (\<exists>m es. t = Some (Dir m es))
    \<and> replies r (Suc (clock r)) = Served
    \<and> (\<exists>os. objs r' = objs r @ \<lparr>oid = next_id r, parent = g_rootFolderID gdc, oname = name,
                                     body = None, trashed = False\<rparr> # os)"
    by (rule impI) (rule g_UploadFolder_success)
  show "p_UploadFolder ctx pc0 t name r = (None, r') \<longrightarrow>
      \<not> ctx_done ctx r \<and> answer r = Served \<and> (\<exists>m es. t = Some (Dir m es))
    \<and> replies r (Suc (clock r)) = Served
    \<and> (\<exists>os. objs r' = objs r @ \<lparr>oid = next_id r, parent = p_rootFolderID pc0, oname = name,
                                     body = None, trashed = False\<rparr> # os)"
    by (rule impI) (rule p_UploadFolder_success)
  show "service gdc \<and> replies r (clock r) = Served \<and> replies r (Suc (clock r)) = Served \<longrightarrow>
      fst (g_UploadFolder None gdc (Some (Dir m es)) name r) = None
    \<and> fst (p_UploadFolder None pc0 (Some (Dir m es)) name r) = None"
    by (simp add: g_UploadFolder_best_effort p_UploadFolder_best_effort)
qed

theorem UploadFolder_success_needs_container_witness:
  "fst (g_UploadFolder None fresh_gdrive (Some scenario_tree) ''backup_2024-01-15_14-30-25'' flaky) = None
   \<and> (\<exists>os. objs (snd (g_UploadFolder None fresh_gdrive (Some scenario_tree) ''backup_2024-01-15_14-30-25'' flaky))
         = objs flaky @ \<lparr>oid = next_id flaky, parent = g_rootFolderID fresh_gdrive,
                          oname = ''backup_2024-01-15_14-30-25'', body = None, trashed = False\<rparr> # os)
   \<and> fst (p_UploadFolder None fresh_pcloud (Some scenario_tree) ''backup_2024-01-15_14-30-25'' flaky) = None"
proof -
  let ?n = "''backup_2024-01-15_14-30-25''"
  have s: "service fresh_gdrive \<and> replies flaky (clock flaky) = Served \<and> replies flaky (Suc (clock flaky)) = Served"
    by (simp add: fresh_gdrive_def flaky_def healthy_def)
  have t: "scenario_tree = Dir 493 [(''a.txt'', File ''abc'' 420), (''sub'', Dir 493 [(''b.txt'', File [] 420)])]"
    by (simp add: scenario_tree_def)
  note th = UploadFolder_success_needs_container[of None fresh_gdrive "Some scenario_tree" ?n flaky
      "snd (g_UploadFolder None fresh_gdrive (Some scenario_tree) ?n flaky)" fresh_pcloud
      493 "[(''a.txt'', File ''abc'' 420), (''sub'', Dir 493 [(''b.txt'', File [] 420)])]"]
  from th s have ok: "fst (g_UploadFolder None fresh_gdrive (Some scenario_tree) ?n flaky) = None"
    "fst (p_UploadFolder None fresh_pcloud (Some scenario_tree) ?n flaky) = None"
    unfolding t by blast+
  then have "g_UploadFolder None fresh_gdrive (Some scenario_tree) ?n flaky
      = (None, snd (g_UploadFolder None fresh_gdrive (Some scenario_tree) ?n flaky))"
    by (metis prod.collapse)
  with th ok show ?thesis by blast
qed

text \<open>
  C5 as stated fails: when the provider refuses the upload of \<^verbatim>\<open>a.txt\<close>, both
  adapters still return nil, and \<^verbatim>\<open>a.txt\<close> is missing on the remote side.
\<close>

theorem partial_upload_counterexample:
  "fst (g_UploadFolder None fresh_gdrive (Some scenario_tree) ''backup_2024-01-15_14-30-25'' flaky) = None
   \<and> ''a.txt'' \<notin> set (map oname (objs (snd
         (g_UploadFolder None fresh_gdrive (Some scenario_tree) ''backup_2024-01-15_14-30-25'' flaky))))
   \<and> fst (p_UploadFolder None fresh_pcloud (Some scenario_tree) ''backup_2024-01-15_14-30-25'' flaky) = None
   \<and> ''a.txt'' \<notin> set (map oname (objs (snd
         (p_UploadFolder None fresh_pcloud (Some scenario_tree) ''backup_2024-01-15_14-30-25'' flaky))))"
  by code_simp

text \<open>
  C6. The loop over the entries of a directory checks the context before each
  entry and then returns the cancellation error at once; but the loop that
  called a nested walk drops that error like any other. Here the context is
  done after \<^verbatim>\<open>sub/a.txt\<close> has been uploaded: the walk of \<^verbatim>\<open>sub\<close> stops before
  \<^verbatim>\<open>b.txt\<close>, and since \<^verbatim>\<open>sub\<close> is the last entry of its parent,
  \<^verbatim>\<open>UploadFolder\<close> returns nil.
\<close>

theorem nested_cancellation_returns_nil:
  "fst (g_UploadFolder (Some 6) fresh_gdrive (Some nested_tree) ''backup_2024-01-15_14-30-25'' healthy) = None
   \<and> ctx_done (Some 6) (snd (g_UploadFolder (Some 6) fresh_gdrive (Some nested_tree) ''backup_2024-01-15_14-30-25'' healthy))
   \<and> map oname (objs (snd (g_UploadFolder (Some 6) fresh_gdrive (Some nested_tree) ''backup_2024-01-15_14-30-25'' healthy)))
        = [''backup_2024-01-15_14-30-25'', ''sub'', ''a.txt'']
   \<and> fst (p_UploadFolder (Some 6) fresh_pcloud (Some nested_tree) ''backup_2024-01-15_14-30-25'' healthy) = None
   \<and> ctx_done (Some 6) (snd (p_UploadFolder (Some 6) fresh_pcloud (Some nested_tree) ''backup_2024-01-15_14-30-25'' healthy))
   \<and> map oname (objs (snd (p_UploadFolder (Some 6) fresh_pcloud (Some nested_tree) ''backup_2024-01-15_14-30-25'' healthy)))
        = [''backup_2024-01-15_14-30-25'', ''sub'', ''a.txt'']"
  by code_simp


lemma cancellation_checked_before_each_entry:
  assumes "g_entries ctx es1 p rel r = (e, r1)" and "ctx_done ctx r1"
  shows "g_entries ctx (es1 @ x # es2) p rel r = (Some Canceled, r1)"
    and "p_entries ctx (es1 @ x # es2) p rel r = (Some Canceled, r1)"
proof -
  obtain name entry where x: "x = (name, entry)" by (cases x)
  show "g_entries ctx (es1 @ x # es2) p rel r = (Some Canceled, r1)"
  proof (cases e)
    case None
    with assms show ?thesis by (simp add: g_entries_append x)
  next
    case (Some err)
    with assms g_entries_error[of ctx es1 p rel r err r1] show ?thesis
      by (simp add: g_entries_append)
  qed
  then show "p_entries ctx (es1 @ x # es2) p rel r = (Some Canceled, r1)"
    by (simp add: p_walk_eq_g)
qed

subsection \<open>A backend that failed to initialize\<close>














subsection \<open>Paths in a directory tree\<close>

lemma shapes_append [simp]: "shapes (es @ fs) = shapes es @ shapes fs"
  by (induction es) auto

lemma map_of_upd_same [simp]: "map_of es c = Some y \<Longrightarrow> map_of (upd c x es) c = Some x"
  by (induction es) auto

lemma map_of_upd_other [simp]: "c' \<noteq> c \<Longrightarrow> map_of (upd c x es) c' = map_of es c'"
  by (induction es) auto

lemma upd_upd [simp]: "upd c y (upd c x es) = upd c y es"
  by (induction es) auto

lemma upd_absent [simp]: "map_of es c = None \<Longrightarrow> upd c x es = es"
  by (induction es) auto

lemma upd_append_present: "map_of es c = Some y \<Longrightarrow> upd c x (es @ fs) = upd c x es @ fs"
  by (induction es) auto

lemma upd_append_absent: "map_of es c = None \<Longrightarrow> upd c x (es @ fs) = es @ upd c x fs"
  by (induction es) auto

lemma get_put: "settable d q \<Longrightarrow> get (put q x d) q = Some x"
  by (induction d q rule: settable.induct) (auto split: option.splits)

lemma get_put_below: "settable d q \<Longrightarrow> get (put q x d) (q @ p) = get x p"
  by (induction d q rule: settable.induct) (auto split: option.splits)

lemma put_put: "settable d q \<Longrightarrow> put q y (put q x d) = put q y d"
  by (induction d q rule: settable.induct) (auto split: option.splits simp: upd_append_absent)

lemma settable_put: "settable d q \<Longrightarrow> settable (put q x d) q"
  by (induction d q rule: settable.induct) (auto split: option.splits)

lemma put_child:
  "settable d q \<Longrightarrow> map_of es n = None \<Longrightarrow>
   put (q @ [n]) y (put q (Dir m es) d) = put q (Dir m (es @ [(n, y)])) d"
  by (induction d q rule: settable.induct) (auto split: option.splits simp: upd_append_absent)

lemma settable_child: "settable d q \<Longrightarrow> settable (put q (Dir m es) d) (q @ [n])"
  by (induction d q rule: settable.induct) (auto split: option.splits)

lemma vacant_settable: "vacant d q \<Longrightarrow> settable d q"
  unfolding vacant_def has_dir_def
  by (induction d q rule: settable.induct) (auto split: option.splits node.splits if_splits)

lemma upd_same [simp]: "map_of es c = Some x \<Longrightarrow> upd c x es = es"
  by (induction es) auto

lemma mkdirAll_existing: "has_dir d p \<Longrightarrow> mkdirAll m p d = Inr d"
  unfolding has_dir_def
  by (induction m p d rule: mkdirAll.induct) (auto split: option.splits node.splits)

lemma mkdirAll_vacant: "vacant d q \<Longrightarrow> mkdirAll m q d = Inr (put q (Dir m []) d)"
proof (induction m q d rule: mkdirAll.induct)
  case (4 m c cs dm es)
  show ?case
  proof (cases "map_of es c")
    case None
    with 4(3) show ?thesis
      by (cases cs) (auto simp: vacant_def has_dir_def)
  next
    case (Some x)
    with 4(3) have cs: "cs \<noteq> []" and v: "vacant x cs"
      by (auto simp: vacant_def has_dir_def split: if_splits)
    from 4(2)[OF Some v] Some show ?thesis by simp
  qed
qed (auto simp: vacant_def has_dir_def split: if_splits)

lemma mkdirAll_creates:
  "mkdirAll m p d = Inr d' \<Longrightarrow> get d p = None \<Longrightarrow> get d' p = Some (Dir m [])"
proof (induction m p d arbitrary: d' rule: mkdirAll.induct)
  case (4 m c cs dm es)
  show ?case
  proof (cases "map_of es c")
    case None
    obtain x' where x': "mkdirAll m cs (Dir m []) = Inr x'"
      using 4(3) None by (auto split: sum.splits)
    have g: "get x' cs = Some (Dir m [])"
    proof (cases cs)
      case Nil
      with x' show ?thesis by simp
    next
      case (Cons a as)
      then have "get (Dir m []) cs = None" by simp
      from 4(1)[OF None x' this] show ?thesis .
    qed
    from 4(3) None x' have "d' = Dir dm (es @ [(c, x')])" by simp
    with g None show ?thesis by (simp add: map_add_def)
  next
    case (Some x)
    obtain x' where x': "mkdirAll m cs x = Inr x'"
      using 4(3) Some by (auto split: sum.splits)
    from 4(4) Some have "get x cs = None" by simp
    from 4(2)[OF Some x' this] 4(3) Some x' show ?thesis by auto
  qed
qed auto

subsection \<open>Cloning the source tree\<close>

lemma sys_disk: "sys c w = (b, w') \<Longrightarrow> disk w' = disk w \<and> umask w' = umask w \<and> b = fails w (length (trace w))"
  by (auto simp: sys_def)

lemma on_disk_ok: "on_disk c f w = (None, w') \<Longrightarrow> f (disk w) = Inr (disk w') \<and> umask w' = umask w"
  by (auto simp: on_disk_def sys_def split: if_splits sum.splits bool.splits)

lemma copyFile_vacant:
  assumes "copyFile rel b q m w = (None, w')" and "vacant (disk w) q"
  shows "disk w' = put q (File b m) (disk w)"
proof -
  let ?d = "disk w"
  from assms(2) have st: "settable ?d q" by (rule vacant_settable)
  from assms(2) have hd: "has_dir ?d (butlast q)" and g: "get ?d q = None"
    by (simp_all add: vacant_def)
  from assms(1) obtain w1 w2 w3 w4 where
    s: "sys (OpenSrc rel) w = (False, w1)"
    and mk: "MkdirAll (butlast q) 493 w1 = (None, w2)"
    and cr: "Create q w2 = (None, w3)"
    and cp: "Copy q b w3 = (None, w4)"
    and ch: "Chmod q m w4 = (None, w')"
    by (auto simp: copyFile_def split: prod.splits bool.splits option.splits)
  from sys_disk[OF s] have d1: "disk w1 = ?d" by simp
  from on_disk_ok[OF mk[unfolded MkdirAll_def]] mkdirAll_existing[OF hd] d1
  have d2: "disk w2 = ?d" by simp
  from on_disk_ok[OF cr[unfolded Create_def]] d2 g hd
  have d3: "disk w3 = put q (File [] (masked (umask w2) 438)) ?d"
    by (auto simp: create_def has_dir_def split: option.splits node.splits)
  from on_disk_ok[OF cp[unfolded Copy_def]] d3 st
  have d4: "disk w4 = put q (File b (masked (umask w2) 438)) ?d"
    by (auto simp: writeAll_def get_put put_put)
  from on_disk_ok[OF ch[unfolded Chmod_def]] d4 st
  show ?thesis
    by (auto simp: chmod_def get_put put_put)
qed

lemma MkdirAll_vacant:
  assumes "MkdirAll q m w = (None, w')" and "vacant (disk w) q"
  shows "disk w' = put q (Dir (masked (umask w) m) []) (disk w)"
  using on_disk_ok[OF assms(1)[unfolded MkdirAll_def]] mkdirAll_vacant[OF assms(2)]
  by simp

lemma Walk_copies:
  "Walk dst rel x w = (None, w') \<Longrightarrow> distinct_names x \<Longrightarrow> vacant (disk w) (dst @ rel) \<Longrightarrow>
     \<exists>x'. disk w' = put (dst @ rel) x' (disk w) \<and> shape x' = shape x"
  "Walk_entries dst rel es w = (None, w') \<Longrightarrow> all_distinct es \<Longrightarrow> distinct (map fst es) \<Longrightarrow>
     settable d0 (dst @ rel) \<Longrightarrow> disk w = put (dst @ rel) (Dir m dn) d0 \<Longrightarrow>
     \<forall>n \<in> fst ` set es. map_of dn n = None \<Longrightarrow>
     \<exists>es'. disk w' = put (dst @ rel) (Dir m (dn @ es')) d0 \<and> shapes es' = shapes es"
proof (induction x and es arbitrary: rel w w' and rel w w' d0 m dn rule: shape_shapes.induct)
  case (1 b fm)
  from "1.prems"(1) obtain w1 where
    s: "sys (Lstat rel) w = (False, w1)" and c: "copyFile rel b (dst @ rel) fm w1 = (None, w')"
    by (auto simp: visit_def split: prod.splits bool.splits)
  from sys_disk[OF s] have d1: "disk w1 = disk w" by simp
  from copyFile_vacant[OF c] "1.prems"(3) d1 have "disk w' = put (dst @ rel) (File b fm) (disk w)"
    by simp
  then show ?case by (intro exI[of _ "File b fm"]) simp
next
  case (2 dm es)
  let ?q = "dst @ rel"
  from "2.prems"(1) obtain w1 w2 w3 where
    s1: "sys (Lstat rel) w = (False, w1)" and s2: "sys (ReadDirNames rel) w1 = (False, w2)"
    and mk: "MkdirAll ?q dm w2 = (None, w3)" and we: "Walk_entries dst rel es w3 = (None, w')"
    by (auto simp: visit_def split: prod.splits bool.splits option.splits)
  from sys_disk[OF s1] sys_disk[OF s2] have d2: "disk w2 = disk w" by simp
  from MkdirAll_vacant[OF mk] "2.prems"(3) d2
  have d3: "disk w3 = put ?q (Dir (masked (umask w2) dm) []) (disk w)" by simp
  have st: "settable (disk w) ?q" using "2.prems"(3) by (rule vacant_settable)
  from "2.IH"[OF we _ _ st d3] "2.prems"(2)
  obtain es' where "disk w' = put ?q (Dir (masked (umask w2) dm) ([] @ es')) (disk w)" "shapes es' = shapes es"
    by auto
  then show ?case by (intro exI[of _ "Dir (masked (umask w2) dm) es'"]) simp
next
  case 3
  then show ?case by (intro exI[of _ "[]"]) simp
next
  case (4 n x es)
  let ?q = "dst @ rel"
  from "4.prems"(1) obtain w1 where
    wk: "Walk dst (rel @ [n]) x w = (None, w1)" and we: "Walk_entries dst rel es w1 = (None, w')"
    by (auto split: prod.splits option.splits)
  have fresh: "map_of dn n = None" using "4.prems"(6) by simp
  have v: "vacant (disk w) (dst @ rel @ [n])"
    using "4.prems"(4,5) fresh get_put[of d0 ?q "Dir m dn"] get_put_below[of d0 ?q "Dir m dn" "[n]"]
    by (simp add: vacant_def has_dir_def butlast_append)
  from "4.IH"(1)[OF wk _ v] "4.prems"(2)
  obtain x' where x': "disk w1 = put (dst @ rel @ [n]) x' (disk w)" "shape x' = shape x"
    by auto
  have d1: "disk w1 = put ?q (Dir m ((dn @ [(n, x')]))) d0"
    using x'(1) "4.prems"(4,5) fresh put_child[of d0 ?q dn n x' m] by simp
  have rest: "\<forall>n' \<in> fst ` set es. map_of (dn @ [(n, x')]) n' = None"
    using "4.prems"(3,6) by (auto simp: map_add_def)
  from "4.IH"(2)[OF we _ _ "4.prems"(4) d1 rest] "4.prems"(2,3)
  obtain es' where "disk w' = put ?q (Dir m ((dn @ [(n, x')]) @ es')) d0" "shapes es' = shapes es"
    by auto
  with x'(2) show ?case by (intro exI[of _ "(n, x') # es'"]) simp
qed

lemma copyDirectory_copies:
  assumes "copyDirectory dst w = (None, w')" and "source w = Some T" and "distinct_names T"
      and "vacant (disk w) dst"
  shows "\<exists>S. get (disk w') dst = Some S \<and> shape S = shape T"
proof -
  from assms(1,2) have "Walk dst [] T w = (None, w')"
    by (simp add: copyDirectory_def)
  from Walk_copies(1)[OF this assms(3)] assms(4)
  obtain S where "disk w' = put dst S (disk w)" "shape S = shape T" by auto
  with vacant_settable[OF assms(4)] show ?thesis
    by (auto simp: get_put)
qed

subsection \<open>Mirroring when every call is served\<close>

lemma after_fields [simp]:
  "objs (after c n os r) = objs r @ os" "next_id (after c n os r) = next_id r + n"
  "clock (after c n os r) = clock r + c" "replies (after c n os r) = replies r"
  by (simp_all add: after_def)

lemma after_after: "after c2 n2 os2 (after c1 n1 os1 r) = after (c1 + c2) (n1 + n2) (os1 @ os2) r"
  by (simp add: after_def add.assoc)

lemma after_zero [simp]: "after 0 0 [] r = r"
  by (simp add: after_def)

lemma tick_after: "tick r = after 1 0 [] r"
  by (simp add: tick_def after_def)

lemma store_after:
  "store p n b r = after 1 1 [\<lparr>oid = next_id r, parent = p, oname = n, body = b, trashed = False\<rparr>] r"
  by (simp add: store_def after_def)

lemma served_after [simp]: "served_throughout (after c n os r) = served_throughout r"
  by (simp add: served_throughout_def)

lemma served_answer [simp]: "served_throughout r \<Longrightarrow> answer r = Served"
  by (simp add: served_throughout_def answer_def)

lemma ctx_done_mono: "ctx_done ctx r \<Longrightarrow> clock r \<le> clock r' \<Longrightarrow> ctx_done ctx r'"
  by (auto simp: ctx_done_def split: option.splits)

lemma not_done_earlier: "\<not> ctx_done ctx (after c n os r) \<Longrightarrow> c' \<le> c \<Longrightarrow> \<not> ctx_done ctx (after c' n' os' r)"
  by (auto simp: ctx_done_def split: option.splits)

lemma g_walk_served:
  "served_throughout r \<Longrightarrow> \<not> ctx_done ctx (after (calls x - 1) n0 os0 r) \<Longrightarrow>
     g_uploadDirectoryRecursive ctx (Some x) p rel r =
       (case x of
          Dir m es \<Rightarrow> (None, after (Suc (calls_entries es)) (nodes_entries es) (created es p (next_id r)) r)
        | File b m \<Rightarrow> (Some (Wrapped ''failed to read directory'' (SysErr ENOTDIR)), tick r))"
  "served_throughout r \<Longrightarrow> \<not> ctx_done ctx (after (calls_entries es) n0 os0 r) \<Longrightarrow>
     g_entries ctx es p rel r = (None, after (calls_entries es) (nodes_entries es) (created es p (next_id r)) r)"
proof (induction x and es arbitrary: p rel r n0 os0 and p rel r n0 os0 rule: shape_shapes.induct)
  case (1 b m)
  then show ?case by simp
next
  case (2 m es)
  have nd: "\<not> ctx_done ctx (after (calls_entries es) 0 [] (tick r))"
    using "2.prems"(2) by (auto simp: ctx_done_def tick_def split: option.splits)
  have sv: "served_throughout (tick r)"
    using "2.prems"(1) by (simp add: tick_after)
  show ?case
    using "2.IH"[OF sv nd, of p rel] "2.prems"(1)
    by (simp add: tick_after after_after)
next
  case 3
  then show ?case by simp
next
  case (4 n x es)
  have nd0: "\<not> ctx_done ctx r"
    using "4.prems"(2) by (auto simp: ctx_done_def split: option.splits)
  show ?case
  proof (cases x)
    case (File b m)
    let ?r1 = "after 2 1 [\<lparr>oid = next_id r, parent = p, oname = n, body = Some b, trashed = False\<rparr>] r"
    have nd1: "\<not> ctx_done ctx (after 1 0 [] r)"
      using "4.prems"(2) File by (auto simp: ctx_done_def split: option.splits)
    have up: "g_uploadFile ctx x n p r = (None, ?r1)"
      using "4.prems"(1) File nd1
      by (simp add: g_uploadFile_def Open_def Files_Create_Context_def Files_Create_def tick_after store_after
                    after_after)
    have nd: "\<not> ctx_done ctx (after (calls_entries es) 0 [] ?r1)"
      using "4.prems"(2) File by (auto simp: ctx_done_def split: option.splits)
    have sv: "served_throughout ?r1" using "4.prems"(1) by simp
    show ?thesis
      using "4.IH"(2)[OF sv nd, of p rel] nd0 File up
      by (simp add: after_after)
  next
    case (Dir m ds)
    let ?f = "\<lparr>oid = next_id r, parent = p, oname = n, body = None, trashed = False\<rparr>"
    let ?r1 = "after 1 1 [?f] r"
    have mk: "Files_Create n [p] None r = (Inr (next_id r), ?r1)"
      using "4.prems"(1) by (simp add: Files_Create_def store_after)
    have sv1: "served_throughout ?r1" using "4.prems"(1) by simp
    have nd1: "\<not> ctx_done ctx (after (calls x - 1) 0 [] ?r1)"
      using "4.prems"(2) Dir by (auto simp: ctx_done_def split: option.splits)
    let ?r2 = "after (Suc (calls_entries ds)) (nodes_entries ds) (created ds (next_id r) (Suc (next_id r))) ?r1"
    have sub: "g_uploadDirectoryRecursive ctx (Some x) (next_id r) (rel @ [n]) ?r1 = (None, ?r2)"
      using "4.IH"(1)[OF sv1 nd1, of "next_id r" "rel @ [n]"] Dir by simp
    have sv2: "served_throughout ?r2" using "4.prems"(1) by simp
    have nd2: "\<not> ctx_done ctx (after (calls_entries es) 0 [] ?r2)"
      using "4.prems"(2) Dir by (auto simp: ctx_done_def split: option.splits)
    show ?thesis
      using "4.IH"(2)[OF sv2 nd2, of p rel] nd0 Dir mk sub
      by (simp add: after_after add.commute add.left_commute)
  qed
qed

lemma readback_Suc: "readback (Suc h) os p = map (render h os) (filter (\<lambda>f. parent f = p) os)"
  by (simp add: render_def)

lemma created_ids:
  "f \<in> set (created_node n x p k) \<Longrightarrow>
     k \<le> oid f \<and> oid f < k + nodes x \<and> (parent f = p \<or> (k \<le> parent f \<and> parent f < k + nodes x))"
  "f \<in> set (created es p k) \<Longrightarrow>
     k \<le> oid f \<and> oid f < k + nodes_entries es \<and> (parent f = p \<or> (k \<le> parent f \<and> parent f < k + nodes_entries es))"
proof (induction x and es arbitrary: n p k and p k rule: shape_shapes.induct)
  case (1 b m)
  then show ?case by auto
next
  case (2 m es)
  then show ?case by fastforce
next
  case 3
  then show ?case by simp
next
  case (4 n' x es)
  from "4.prems" consider "f \<in> set (created_node n' x p k)" | "f \<in> set (created es p (k + nodes x))"
    by auto
  then show ?case
  proof cases
    case 1
    from "4.IH"(1)[OF this] show ?thesis by auto
  next
    case 2
    from "4.IH"(2)[OF this] show ?thesis by auto
  qed
qed

lemma filter_none: "(\<And>f. f \<in> set os \<Longrightarrow> \<not> P f) \<Longrightarrow> filter P os = []"
  by (simp add: filter_empty_conv)

lemma children_of_new:
  assumes "p < k"
  shows "filter (\<lambda>f. parent f = p) (created_node n x p k)
           = [\<lparr>oid = k, parent = p, oname = n, body = (case x of File b m \<Rightarrow> Some b | Dir m es \<Rightarrow> None),
               trashed = False\<rparr>]"
proof (cases x)
  case (File b m)
  then show ?thesis by simp
next
  case (Dir m es)
  have "\<And>f. f \<in> set (created es k (Suc k)) \<Longrightarrow> parent f \<noteq> p"
    using assms by (fastforce dest: created_ids(2))
  then have "filter (\<lambda>f. parent f = p) (created es k (Suc k)) = []"
    by (intro filter_none) auto
  with Dir show ?thesis by simp
qed

lemma readback_created:
  "p < k \<Longrightarrow> \<forall>f \<in> set A \<union> set B. parent f \<notin> {k ..< k + nodes x} \<Longrightarrow> height x \<le> h \<Longrightarrow>
     map (render h (A @ created_node n x p k @ B)) (filter (\<lambda>f. parent f = p) (created_node n x p k))
       = [(n, shape x)]"
  "p < k \<Longrightarrow> \<forall>f \<in> set A \<union> set B. parent f \<notin> {k ..< k + nodes_entries es} \<Longrightarrow> heights es \<le> h \<Longrightarrow>
     map (render h (A @ created es p k @ B)) (filter (\<lambda>f. parent f = p) (created es p k))
       = shapes es"
proof (induction x and es arbitrary: n p k A B h and p k A B h rule: shape_shapes.induct)
  case (1 b m)
  then show ?case by (simp add: render_def)
next
  case (2 m es)
  let ?f = "\<lparr>oid = k, parent = p, oname = n, body = None, trashed = False\<rparr>"
  let ?seg = "created es k (Suc k)"
  let ?os = "A @ created_node n (Dir m es) p k @ B"
  from "2.prems"(3) obtain h' where h: "h = Suc h'" "heights es \<le> h'"
    by (cases h) auto
  have os: "?os = (A @ [?f]) @ ?seg @ B" by simp
  have outside: "\<forall>f \<in> set (A @ [?f]) \<union> set B. parent f \<notin> {Suc k ..< Suc k + nodes_entries es}"
    using "2.prems"(1,2) by auto
  have fa: "filter (\<lambda>f. parent f = k) A = []" and fb: "filter (\<lambda>f. parent f = k) B = []"
    using "2.prems"(2) by (auto intro!: filter_none)
  have pk: "p \<noteq> k" using "2.prems"(1) by simp
  have "readback h ?os k = map (render h' ?os) (filter (\<lambda>f. parent f = k) ?seg)"
    unfolding h(1) readback_Suc using fa fb pk by simp
  also have "\<dots> = shapes es"
    unfolding os by (rule "2.IH"[OF _ outside h(2)]) simp
  finally have rb: "readback h ?os k = shapes es" .
  have "filter (\<lambda>f. parent f = p) (created_node n (Dir m es) p k) = [?f]"
    using children_of_new[OF "2.prems"(1), of n "Dir m es"] by simp
  then show ?case
    using rb by (simp add: render_def)
next
  case 3
  then show ?case by simp
next
  case (4 n x es)
  let ?s1 = "created_node n x p k"
  let ?s2 = "created es p (k + nodes x)"
  let ?os = "A @ created ((n, x) # es) p k @ B"
  have os1: "?os = A @ ?s1 @ (?s2 @ B)" and os2: "?os = (A @ ?s1) @ ?s2 @ B" by simp_all
  have out1: "\<forall>f \<in> set A \<union> set (?s2 @ B). parent f \<notin> {k ..< k + nodes x}"
  proof
    fix f assume f: "f \<in> set A \<union> set (?s2 @ B)"
    show "parent f \<notin> {k ..< k + nodes x}"
    proof (cases "f \<in> set ?s2")
      case True
      from created_ids(2)[OF this] "4.prems"(1) show ?thesis by auto
    next
      case False
      with f have "f \<in> set A \<union> set B" by auto
      with "4.prems"(2) have "parent f \<notin> {k ..< k + nodes_entries ((n, x) # es)}" by blast
      then show ?thesis by auto
    qed
  qed
  have out2: "\<forall>f \<in> set (A @ ?s1) \<union> set B. parent f \<notin> {k + nodes x ..< k + nodes x + nodes_entries es}"
  proof
    fix f assume f: "f \<in> set (A @ ?s1) \<union> set B"
    show "parent f \<notin> {k + nodes x ..< k + nodes x + nodes_entries es}"
    proof (cases "f \<in> set ?s1")
      case True
      from created_ids(1)[OF this] "4.prems"(1) show ?thesis by auto
    next
      case False
      with f have "f \<in> set A \<union> set B" by auto
      with "4.prems"(2) have "parent f \<notin> {k ..< k + nodes_entries ((n, x) # es)}" by blast
      then show ?thesis by auto
    qed
  qed
  have h1: "height x \<le> h" and h2: "heights es \<le> h" using "4.prems"(3) by simp_all
  have p2: "p < k + nodes x" using "4.prems"(1) by simp
  have a: "map (render h ?os) (filter (\<lambda>f. parent f = p) ?s1) = [(n, shape x)]"
    unfolding os1 by (rule "4.IH"(1)[OF "4.prems"(1) out1 h1])
  have b: "map (render h ?os) (filter (\<lambda>f. parent f = p) ?s2) = shapes es"
    unfolding os2 by (rule "4.IH"(2)[OF p2 out2 h2])
  show ?case
    using a b by simp
qed

subsection \<open>Cloning, then mirroring\<close>

lemma same_shape:
  "shape S = shape T \<Longrightarrow> calls S = calls T \<and> nodes S = nodes T \<and> height S = height T \<and> IsDir S = IsDir T"
  "shapes ss = shapes ts \<Longrightarrow>
     calls_entries ss = calls_entries ts \<and> nodes_entries ss = nodes_entries ts \<and> heights ss = heights ts"
proof (induction S and ss arbitrary: T and ts rule: shape_shapes.induct)
  case (1 b m)
  then show ?case by (cases T) simp_all
next
  case (2 m es)
  show ?case
  proof (cases T)
    case (File b fm)
    with "2.prems" show ?thesis by simp
  next
    case (Dir m' es')
    with "2.prems" have "shapes es = shapes es'" by simp
    from "2.IH"[OF this] Dir show ?thesis by simp
  qed
next
  case 3
  then show ?case by (cases ts) auto
next
  case (4 n x es)
  show ?case
  proof (cases ts)
    case Nil
    with "4.prems" show ?thesis by simp
  next
    case (Cons t rest)
    obtain n' y where t: "t = (n', y)" by (cases t)
    from "4.prems" Cons t have a: "shape x = shape y" and b: "shapes es = shapes rest" by simp_all
    from "4.IH"(1)[OF a] "4.IH"(2)[OF b] Cons t show ?thesis by simp
  qed
qed

lemma length_created:
  "length (created_node n x p k) = nodes x"
  "length (created es p k) = nodes_entries es"
  by (induction x and es arbitrary: n p k and p k rule: shape_shapes.induct) auto

lemma readback_run:
  assumes "wf_remote r" and "root < next_id r" and "Suc (heights es) \<le> h"
  shows "readback h (objs r @ \<lparr>oid = next_id r, parent = root, oname = name, body = None, trashed = False\<rparr>
                        # created es (next_id r) (Suc (next_id r))) (next_id r) = shapes es"
proof -
  let ?k = "next_id r"
  let ?c = "\<lparr>oid = ?k, parent = root, oname = name, body = None, trashed = False\<rparr>"
  let ?os = "objs r @ ?c # created es ?k (Suc ?k)"
  from assms(3) obtain h' where h: "h = Suc h'" "heights es \<le> h'" by (cases h) auto
  have os: "?os = (objs r @ [?c]) @ created es ?k (Suc ?k) @ []" by simp
  have fa: "filter (\<lambda>f. parent f = ?k) (objs r) = []"
    using assms(1) by (intro filter_none) (auto simp: wf_remote_def)
  have out: "\<forall>f \<in> set (objs r @ [?c]) \<union> set []. parent f \<notin> {Suc ?k ..< Suc ?k + nodes_entries es}"
    using assms(1,2) by (auto simp: wf_remote_def)
  have "readback h ?os ?k = map (render h' ?os) (filter (\<lambda>f. parent f = ?k) (created es ?k (Suc ?k)))"
    unfolding h(1) readback_Suc using fa assms(2) by simp
  also have "\<dots> = shapes es"
    unfolding os by (rule readback_created(2)[OF _ out h(2)]) simp
  finally show ?thesis .
qed

lemma g_UploadFolder_mirrors:
  assumes "served_throughout r" and "wf_remote r" and "service gdc" and "g_rootFolderID gdc < next_id r"
      and "\<not> ctx_done ctx (r\<lparr>clock := clock r + calls (Dir m es)\<rparr>)" and "height (Dir m es) \<le> h"
      and "g_UploadFolder ctx gdc (Some (Dir m es)) name r = (res, r')"
  shows "res = None"
    and "objs r' = objs r @ \<lparr>oid = next_id r, parent = g_rootFolderID gdc, oname = name, body = None,
                                trashed = False\<rparr> # created es (next_id r) (Suc (next_id r))"
    and "readback h (objs r') (next_id r) = shapes es"
proof -
  let ?c = "\<lparr>oid = next_id r, parent = g_rootFolderID gdc, oname = name, body = None, trashed = False\<rparr>"
  let ?r1 = "after 1 1 [?c] r"
  have sv1: "served_throughout ?r1" using assms(1) by simp
  have nd: "\<not> ctx_done ctx (after (calls (Dir m es) - 1) 0 [] ?r1)"
    using assms(5) by (auto simp: ctx_done_def split: option.splits)
  from g_walk_served(1)[OF sv1 nd, of "next_id r" "[]"]
  have "g_UploadFolder ctx gdc (Some (Dir m es)) name r =
          (None, after (Suc (calls_entries es)) (nodes_entries es) (created es (next_id r) (Suc (next_id r))) ?r1)"
    using assms(1,3) by (simp add: g_UploadFolder_def Files_Create_def store_after)
  with assms(7) have res: "res = None"
    and o: "objs r' = objs r @ ?c # created es (next_id r) (Suc (next_id r))"
    by auto
  show "res = None" by (rule res)
  show "objs r' = objs r @ ?c # created es (next_id r) (Suc (next_id r))" by (rule o)
  show "readback h (objs r') (next_id r) = shapes es"
    unfolding o using readback_run[OF assms(2,4), of es h name] assms(6) by simp
qed

lemma p_UploadFolder_mirrors:
  assumes "served_throughout r" and "wf_remote r" and "p_rootFolderID pc0 < next_id r"
      and "\<not> ctx_done ctx (r\<lparr>clock := clock r + calls (Dir m es)\<rparr>)" and "height (Dir m es) \<le> h"
      and "p_UploadFolder ctx pc0 (Some (Dir m es)) name r = (res, r')"
  shows "res = None"
    and "objs r' = objs r @ \<lparr>oid = next_id r, parent = p_rootFolderID pc0, oname = name, body = None,
                                trashed = False\<rparr> # created es (next_id r) (Suc (next_id r))"
    and "readback h (objs r') (next_id r) = shapes es"
proof -
  let ?c = "\<lparr>oid = next_id r, parent = p_rootFolderID pc0, oname = name, body = None, trashed = False\<rparr>"
  let ?r1 = "after 1 1 [?c] r"
  have sv1: "served_throughout ?r1" using assms(1) by simp
  have nd: "\<not> ctx_done ctx (after (calls (Dir m es) - 1) 0 [] ?r1)"
    using assms(4) by (auto simp: ctx_done_def split: option.splits)
  have nd0: "\<not> ctx_done ctx r"
    using assms(4) by (auto simp: ctx_done_def split: option.splits)
  from g_walk_served(1)[OF sv1 nd, of "next_id r" "[]"]
  have "p_UploadFolder ctx pc0 (Some (Dir m es)) name r =
          (None, after (Suc (calls_entries es)) (nodes_entries es) (created es (next_id r) (Suc (next_id r))) ?r1)"
    using assms(1) nd0 by (simp add: p_UploadFolder_def makeRequest_def store_after p_walk_eq_g)
  with assms(6) have res: "res = None"
    and o: "objs r' = objs r @ ?c # created es (next_id r) (Suc (next_id r))"
    by auto
  show "res = None" by (rule res)
  show "objs r' = objs r @ ?c # created es (next_id r) (Suc (next_id r))" by (rule o)
  show "readback h (objs r') (next_id r) = shapes es"
    unfolding o using readback_run[OF assms(2,3), of es h name] assms(5) by simp
qed

text \<open>
  C2. Let the source folder hold the directory tree \<open>T\<close>, let \<^verbatim>\<open>copyDirectory\<close>
  clone it to a place \<open>dst\<close> that was vacant and return nil, and let a backend
  then mirror what lies at \<open>dst\<close> with every call served and the context not
  done before the last call. Then the staged tree has the shape of \<open>T\<close> (same
  names, same bytes, same nesting); \<^verbatim>\<open>UploadFolder\<close> returns nil; the objects
  below the run's container, the object the provider numbered
  \<open>next_id r\<close>, read back as the shape of \<open>T\<close>, every directory being a folder;
  and one object was created for the container and for every entry of \<open>T\<close>,
  none besides. This holds for either adapter.
\<close>

theorem clone_then_mirror:
  assumes "source w = Some T" and "IsDir T" and "distinct_names T"
      and "vacant (disk w) dst"
      and "copyDirectory dst w = (None, w')"
      and "served_throughout r" and "wf_remote r"
      and "\<not> ctx_done ctx (r\<lparr>clock := clock r + calls T\<rparr>)"
      and "height T \<le> h"
  shows "map_option shape (get (disk w') dst) = Some (shape T)
       \<and> (service gdc \<and> g_rootFolderID gdc < next_id r \<longrightarrow>
            fst (g_UploadFolder ctx gdc (get (disk w') dst) name r) = None
          \<and> TDir (readback h (objs (snd (g_UploadFolder ctx gdc (get (disk w') dst) name r))) (next_id r)) = shape T
          \<and> length (objs (snd (g_UploadFolder ctx gdc (get (disk w') dst) name r))) = length (objs r) + nodes T)
       \<and> (p_rootFolderID pc0 < next_id r \<longrightarrow>
            fst (p_UploadFolder ctx pc0 (get (disk w') dst) name r) = None
          \<and> TDir (readback h (objs (snd (p_UploadFolder ctx pc0 (get (disk w') dst) name r))) (next_id r)) = shape T
          \<and> length (objs (snd (p_UploadFolder ctx pc0 (get (disk w') dst) name r))) = length (objs r) + nodes T)"
proof -
  from copyDirectory_copies[OF assms(5,1,3,4)] obtain S where
    S: "get (disk w') dst = Some S" "shape S = shape T" by blast
  from same_shape(1)[OF S(2)] have eq: "calls S = calls T" "nodes S = nodes T" "height S = height T" "IsDir S = IsDir T"
    by simp_all
  with assms(2) obtain m es where D: "S = Dir m es" by (cases S) auto
  have sh: "shape T = TDir (shapes es)" using S(2) D by simp
  have nd: "\<not> ctx_done ctx (r\<lparr>clock := clock r + calls (Dir m es)\<rparr>)"
    using assms(8) eq(1) D by simp
  have ht: "height (Dir m es) \<le> h" using assms(9) eq(3) D by simp
  have nn: "nodes T = Suc (nodes_entries es)" using eq(2) D by simp
  have g: "service gdc \<and> g_rootFolderID gdc < next_id r \<longrightarrow>
            fst (g_UploadFolder ctx gdc (get (disk w') dst) name r) = None
          \<and> TDir (readback h (objs (snd (g_UploadFolder ctx gdc (get (disk w') dst) name r))) (next_id r)) = shape T
          \<and> length (objs (snd (g_UploadFolder ctx gdc (get (disk w') dst) name r))) = length (objs r) + nodes T"
  proof
    assume a: "service gdc \<and> g_rootFolderID gdc < next_id r"
    obtain res r' where u: "g_UploadFolder ctx gdc (Some (Dir m es)) name r = (res, r')"
      by (cases "g_UploadFolder ctx gdc (Some (Dir m es)) name r")
    note m = g_UploadFolder_mirrors[OF assms(6,7) conjunct1[OF a] conjunct2[OF a] nd ht u]
    have "length (objs r') = length (objs r) + Suc (nodes_entries es)"
      unfolding m(2) by (simp add: length_created)
    with m(1,3) show "fst (g_UploadFolder ctx gdc (get (disk w') dst) name r) = None
          \<and> TDir (readback h (objs (snd (g_UploadFolder ctx gdc (get (disk w') dst) name r))) (next_id r)) = shape T
          \<and> length (objs (snd (g_UploadFolder ctx gdc (get (disk w') dst) name r))) = length (objs r) + nodes T"
      unfolding S(1) D u sh nn by simp
  qed
  have p: "p_rootFolderID pc0 < next_id r \<longrightarrow>
            fst (p_UploadFolder ctx pc0 (get (disk w') dst) name r) = None
          \<and> TDir (readback h (objs (snd (p_UploadFolder ctx pc0 (get (disk w') dst) name r))) (next_id r)) = shape T
          \<and> length (objs (snd (p_UploadFolder ctx pc0 (get (disk w') dst) name r))) = length (objs r) + nodes T"
  proof
    assume a: "p_rootFolderID pc0 < next_id r"
    obtain res r' where u: "p_UploadFolder ctx pc0 (Some (Dir m es)) name r = (res, r')"
      by (cases "p_UploadFolder ctx pc0 (Some (Dir m es)) name r")
    note m = p_UploadFolder_mirrors[OF assms(6,7) a nd ht u]
    have "length (objs r') = length (objs r) + Suc (nodes_entries es)"
      unfolding m(2) by (simp add: length_created)
    with m(1,3) show "fst (p_UploadFolder ctx pc0 (get (disk w') dst) name r) = None
          \<and> TDir (readback h (objs (snd (p_UploadFolder ctx pc0 (get (disk w') dst) name r))) (next_id r)) = shape T
          \<and> length (objs (snd (p_UploadFolder ctx pc0 (get (disk w') dst) name r))) = length (objs r) + nodes T"
      unfolding S(1) D u sh nn by simp
  qed
  show ?thesis
  proof (intro conjI)
    show "map_option shape (get (disk w') dst) = Some (shape T)"
      using S by simp
  qed (rule g, rule p)
qed

theorem clone_then_mirror_witness:
  "fst (copyDirectory [''docs''] scenario_world) = None
   \<and> map_option shape (get (disk staged_scenario) [''docs''])
       = Some (TDir [(''a.txt'', TFile ''abc''), (''sub'', TDir [(''b.txt'', TFile [])])])
   \<and> fst (g_UploadFolder None fresh_gdrive (get (disk staged_scenario) [''docs'']) ''backup_2024-01-15_14-30-25'' healthy) = None
   \<and> TDir (readback 2 (objs (snd (g_UploadFolder None fresh_gdrive (get (disk staged_scenario) [''docs''])
                                    ''backup_2024-01-15_14-30-25'' healthy))) 1)
       = TDir [(''a.txt'', TFile ''abc''), (''sub'', TDir [(''b.txt'', TFile [])])]
   \<and> TDir (readback 2 (objs (snd (p_UploadFolder None fresh_pcloud (get (disk staged_scenario) [''docs''])
                                    ''backup_2024-01-15_14-30-25'' healthy))) 1)
       = TDir [(''a.txt'', TFile ''abc''), (''sub'', TDir [(''b.txt'', TFile [])])]"
proof -
  have c: "fst (copyDirectory [''docs''] scenario_world) = None"
    by code_simp
  then have c': "copyDirectory [''docs''] scenario_world = (None, staged_scenario)"
    unfolding staged_scenario_def by (metis prod.collapse)
  have h: "source scenario_world = Some scenario_tree" "IsDir scenario_tree" "distinct_names scenario_tree"
    "vacant (disk scenario_world) [''docs'']" "served_throughout healthy" "wf_remote healthy"
    "\<not> ctx_done None (healthy\<lparr>clock := clock healthy + calls scenario_tree\<rparr>)" "height scenario_tree \<le> 2"
    by (simp_all add: scenario_world_def scenario_tree_def vacant_def has_dir_def served_throughout_def
                      wf_remote_def healthy_def ctx_done_def)
  have r: "service fresh_gdrive \<and> g_rootFolderID fresh_gdrive < next_id healthy"
    "p_rootFolderID fresh_pcloud < next_id healthy" "next_id healthy = 1"
    by (simp_all add: fresh_gdrive_def fresh_pcloud_def healthy_def)
  have s: "shape scenario_tree = TDir [(''a.txt'', TFile ''abc''), (''sub'', TDir [(''b.txt'', TFile [])])]"
    by (simp add: scenario_tree_def)
  from clone_then_mirror[OF h(1-4) c' h(5-8), of fresh_gdrive "''backup_2024-01-15_14-30-25''" fresh_pcloud] c r
  show ?thesis unfolding s by simp
qed

subsection \<open>Nothing is excluded\<close>

lemma get_append: "get d (p @ q) = (case get d p of None \<Rightarrow> None | Some x \<Rightarrow> get x q)"
  by (induction d p rule: get.induct) (auto split: option.splits)

lemma MergeConfigWithFlags_Excludes:
  "MergeConfigWithFlags pd (cfile\<lparr>cf_Excludes := xs\<rparr>) flags = MergeConfigWithFlags pd cfile flags"
  by (simp add: MergeConfigWithFlags_def split del: if_split cong: if_cong)

lemma vacant_child: "get d p = Some (Dir m []) \<Longrightarrow> vacant d (p @ [b])"
  by (simp add: vacant_def has_dir_def get_append)

lemma staged_copies:
  assumes "staged bm w = Some (destPath, backupName, w2)" and "source w = Some T" and "distinct_names T"
      and "get (disk w) (tempDir bm @ [''backup_'' @ now w]) = None"
  shows "map_option shape (get (disk w2) destPath) = Some (shape T)"
proof -
  let ?w0 = "logf (StartingBackup (SourceFolder (config bm))) w"
  let ?p = "tempDir bm @ [''backup_'' @ now w]"
  from assms(1) obtain w1 where
    mk: "MkdirAll ?p 493 ?w0 = (None, w1)" and cp: "copyDirectory destPath w1 = (None, w2)"
    and nm: "backupName = ''backup_'' @ now w"
    and dp: "destPath = tempDir bm @ [backupName, Base (SourceFolder (config bm))]"
    by (rule stagedD)
  from on_disk_ok[OF mk[unfolded MkdirAll_def]]
  have "mkdirAll (masked (umask ?w0) 493) ?p (disk w) = Inr (disk w1)" by simp
  from mkdirAll_creates[OF this assms(4)]
  have g: "get (disk w1) ?p = Some (Dir (masked (umask ?w0) 493) [])" .
  have dp': "destPath = ?p @ [Base (SourceFolder (config bm))]" using dp nm by simp
  have v: "vacant (disk w1) destPath"
    unfolding dp' using g by (rule vacant_child)
  have src: "source w1 = Some T"
    using fs_calls_fs_only(1)[OF mk] assms(2) by (simp add: fs_only_def)
  from copyDirectory_copies[OF cp src assms(3) v] show ?thesis by auto
qed

text \<open>
  C10. The exclude patterns of the configuration file do not reach the
  configuration that \<^verbatim>\<open>MergeConfigWithFlags\<close> returns, which is all that the
  backup manager is given; and whenever a cycle has cloned the source tree
  \<open>T\<close> into a staging directory that did not exist before, the staged tree has
  the shape of \<open>T\<close>: every file and every directory is there.
\<close>

theorem staging_excludes_nothing:
  "MergeConfigWithFlags pd (cfile\<lparr>cf_Excludes := xs\<rparr>) flags = MergeConfigWithFlags pd cfile flags
   \<and> (staged bm w = Some (destPath, backupName, w2) \<and> source w = Some T \<and> distinct_names T
        \<and> get (disk w) (tempDir bm @ [''backup_'' @ now w]) = None
      \<longrightarrow> map_option shape (get (disk w2) destPath) = Some (shape T))"
  using MergeConfigWithFlags_Excludes staged_copies by blast

theorem staging_excludes_nothing_witness:
  "staged scenario_bm scenario_world \<noteq> None
   \<and> map_option shape (get (disk (snd (snd (the (staged scenario_bm scenario_world)))))
                          (fst (the (staged scenario_bm scenario_world))))
       = Some (TDir [(''a.txt'', TFile ''abc''), (''sub'', TDir [(''b.txt'', TFile [])])])"
proof -
  have a: "staged scenario_bm scenario_world \<noteq> None"
    by code_simp
  then obtain d n w2 where s: "staged scenario_bm scenario_world = Some (d, n, w2)"
    by (cases "staged scenario_bm scenario_world") auto
  have h: "source scenario_world = Some scenario_tree" "distinct_names scenario_tree"
    "get (disk scenario_world) (tempDir scenario_bm @ [''backup_'' @ now scenario_world]) = None"
    by (simp_all add: scenario_world_def scenario_tree_def scenario_bm_def)
  have t: "shape scenario_tree = TDir [(''a.txt'', TFile ''abc''), (''sub'', TDir [(''b.txt'', TFile [])])]"
    by (simp add: scenario_tree_def)
  from staging_excludes_nothing[of _ _ _ _ scenario_bm scenario_world d n w2 scenario_tree] s h
  have "map_option shape (get (disk w2) d) = Some (shape scenario_tree)"
    by blast
  with a s t show ?thesis by simp
qed

end
